theory Spec2Isabelle
  imports Complex_Main "HOL-Library.Sublist"
begin

section \<open>Strings and numbers of the source language\<close>

text \<open>
  The services under \<^verbatim>\<open>src/lib/services\<close> are TypeScript. A string of the source is a
  sequence of code units; it is modelled as a \<^typ>\<open>string\<close>, one \<^typ>\<open>char\<close> per code unit,
  which covers the code units below 256 (ASCII and Latin-1). A number of the source is a
  double; it is modelled as an exact rational, which agrees with the source as long as the
  values stay in the range where doubles are exact.
\<close>

definition code :: "char \<Rightarrow> nat" where
  "code c = of_char c"

text \<open>The class \<^verbatim>\<open>\d\<close> of a regular expression: the ten ASCII digits.\<close>

definition is_digit :: "char \<Rightarrow> bool" where
  "is_digit c = (48 \<le> code c \<and> code c \<le> 57)"

text \<open>
  The class \<^verbatim>\<open>\s\<close>, which is also what \<^verbatim>\<open>String.prototype.trim\<close> removes: tab, line
  feed, vertical tab, form feed, carriage return, space and the no-break space.
\<close>

definition is_space :: "char \<Rightarrow> bool" where
  "is_space c = (code c \<in> {9, 10, 11, 12, 13, 32, 160})"

text \<open>The class \<^verbatim>\<open>\w\<close> (without the unicode flag): ASCII letters, digits, underscore.\<close>

definition is_word :: "char \<Rightarrow> bool" where
  "is_word c = ((48 \<le> code c \<and> code c \<le> 57) \<or> (65 \<le> code c \<and> code c \<le> 90)
                \<or> (97 \<le> code c \<and> code c \<le> 122) \<or> code c = 95)"

text \<open>The class \<^verbatim>\<open>[.,]\<close>.\<close>

definition is_sep :: "char \<Rightarrow> bool" where
  "is_sep c = (c = CHR ''.'' \<or> c = CHR '','')"

text \<open>The class \<^verbatim>\<open>[,.\-:]\<close>.\<close>

definition is_punct :: "char \<Rightarrow> bool" where
  "is_punct c = (c = CHR '','' \<or> c = CHR ''.'' \<or> c = CHR ''-'' \<or> c = CHR '':'')"

text \<open>
  \<^verbatim>\<open>toLowerCase\<close> on one code unit below 256: the ASCII capitals and the Latin-1 capitals
  (all of 192 to 222 but the multiplication sign 215) move up by 32.
\<close>

definition lower_char :: "char \<Rightarrow> char" where
  "lower_char c =
     (if (65 \<le> code c \<and> code c \<le> 90) \<or> (192 \<le> code c \<and> code c \<le> 222 \<and> code c \<noteq> 215)
      then char_of (code c + 32) else c)"

definition toLowerCase :: "string \<Rightarrow> string" where
  "toLowerCase s = map lower_char s"

definition trim :: "string \<Rightarrow> string" where
  "trim s = rev (dropWhile is_space (rev (dropWhile is_space s)))"

text \<open>\<^verbatim>\<open>parseInt(s, 10)\<close> on a string of digits.\<close>

definition digit_val :: "char \<Rightarrow> nat" where
  "digit_val c = code c - 48"

definition parseInt :: "string \<Rightarrow> nat" where
  "parseInt s = foldl (\<lambda>acc c. 10 * acc + digit_val c) 0 s"

text \<open>\<^verbatim>\<open>Math.round\<close>: the nearest integer, a tie going up.\<close>

definition Math_round :: "rat \<Rightarrow> rat" where
  "Math_round x = of_int \<lfloor>x + 1 / 2\<rfloor>"

text \<open>\<^verbatim>\<open>s.includes(t)\<close>: \<open>t\<close> occurs in \<open>s\<close> as a contiguous substring.\<close>

fun str_includes :: "string \<Rightarrow> string \<Rightarrow> bool" where
  "str_includes [] t = (t = [])"
| "str_includes (c # s) t = (prefix t (c # s) \<or> str_includes s t)"

section \<open>The amount parser (\<^verbatim>\<open>parser.ts\<close>)\<close>

subsection \<open>The anchored grammars of \<^verbatim>\<open>parseAmount\<close>\<close>

text \<open>
  \<^verbatim>\<open>/^(\d+)([.,](\d+))?\s*(jt|juta)$/\<close> and its sibling for \<^verbatim>\<open>rb|ribu|k\<close>. Digits,
  separators, white space and letters are disjoint classes, so the greedy reading below is
  the only way the expression can match. The result holds group 1 and group 3.
\<close>

definition match_suffixed :: "string list \<Rightarrow> string \<Rightarrow> (string \<times> string option) option" where
  "match_suffixed sufs s =
     (let whole = takeWhile is_digit s; r1 = dropWhile is_digit s in
      if whole = [] then None
      else
        let (fpart, r2) =
              (case r1 of
                 c # r' \<Rightarrow>
                   if is_sep c \<and> takeWhile is_digit r' \<noteq> []
                   then (Some (takeWhile is_digit r'), dropWhile is_digit r')
                   else (None, r1)
               | [] \<Rightarrow> (None, r1))
        in if dropWhile is_space r2 \<in> set sufs then Some (whole, fpart) else None)"

text \<open>\<^verbatim>\<open>([.,]\d{3})*$\<close>: the rest of the string is groups only.\<close>

fun only_groups :: "string \<Rightarrow> bool" where
  "only_groups [] = True"
| "only_groups (c # d1 # d2 # d3 # r) =
     (is_sep c \<and> is_digit d1 \<and> is_digit d2 \<and> is_digit d3 \<and> only_groups r)"
| "only_groups _ = False"

text \<open>\<^verbatim>\<open>/^(\d{1,3})([.,]\d{3})+$/\<close>.\<close>

definition match_thousandSep :: "string \<Rightarrow> bool" where
  "match_thousandSep s =
     (let k = length (takeWhile is_digit s); r = dropWhile is_digit s in
      1 \<le> k \<and> k \<le> 3 \<and> r \<noteq> [] \<and> only_groups r)"

text \<open>\<^verbatim>\<open>/^(\d+)$/\<close>.\<close>

definition match_plain :: "string \<Rightarrow> bool" where
  "match_plain s = (s \<noteq> [] \<and> list_all is_digit s)"

text \<open>\<^verbatim>\<open>/^(\d+)[.,](\d+)$/\<close>, with groups 1 and 2.\<close>

definition match_decimal :: "string \<Rightarrow> (string \<times> string) option" where
  "match_decimal s =
     (let whole = takeWhile is_digit s in
      case dropWhile is_digit s of
        c # r \<Rightarrow>
          if whole \<noteq> [] \<and> is_sep c \<and> r \<noteq> [] \<and> list_all is_digit r then Some (whole, r) else None
      | [] \<Rightarrow> None)"

text \<open>\<^verbatim>\<open>cleaned.replace(/[.,]/g, '')\<close>.\<close>

definition strip_seps :: "string \<Rightarrow> string" where
  "strip_seps s = filter (\<lambda>c. \<not> is_sep c) s"

text \<open>
  The value of a suffixed amount:
  \<^verbatim>\<open>Math.round((wholePart + decimalPart / decimalMultiplier) * multiplier)\<close>.
\<close>

definition suffixed_value :: "rat \<Rightarrow> string \<times> string option \<Rightarrow> rat" where
  "suffixed_value mult g =
     (case g of (whole, fpart) \<Rightarrow>
        let wholePart = rat_of_nat (parseInt whole);
            decimalPart = (case fpart of Some f \<Rightarrow> rat_of_nat (parseInt f) | None \<Rightarrow> 0);
            decimalMultiplier = (case fpart of Some f \<Rightarrow> 10 ^ length f | None \<Rightarrow> 1)
        in Math_round ((wholePart + decimalPart / decimalMultiplier) * mult))"

text \<open>
  \<^verbatim>\<open>parseFloat\<close> on \<^verbatim>\<open><digits>.<digits>\<close>: the decimal number that the text denotes.
\<close>

definition parseFloat_decimal :: "string \<Rightarrow> string \<Rightarrow> rat" where
  "parseFloat_decimal whole fpart =
     rat_of_nat (parseInt whole) + rat_of_nat (parseInt fpart) / 10 ^ length fpart"

subsection \<open>\<^verbatim>\<open>parseAmount\<close>\<close>

definition parseAmount :: "string \<Rightarrow> rat option" where
  "parseAmount input =
     (let cleaned = toLowerCase (trim input) in
      if cleaned = [] then None
      else case match_suffixed [''jt'', ''juta''] cleaned of
        Some g \<Rightarrow> Some (suffixed_value 1000000 g)
      | None \<Rightarrow>
      (case match_suffixed [''rb'', ''ribu'', ''k''] cleaned of
        Some g \<Rightarrow> Some (suffixed_value 1000 g)
      | None \<Rightarrow>
      if match_thousandSep cleaned then Some (rat_of_nat (parseInt (strip_seps cleaned)))
      else if match_plain cleaned then Some (rat_of_nat (parseInt cleaned))
      else (case match_decimal cleaned of
        Some (whole, afterSep) \<Rightarrow>
          if length afterSep < 3 then Some (parseFloat_decimal whole afterSep)
          else Some (rat_of_nat (parseInt (strip_seps cleaned)))
      | None \<Rightarrow> None)))"

subsection \<open>The amount extractors of \<^verbatim>\<open>parseInput\<close>\<close>

text \<open>
  \<^verbatim>\<open>String.prototype.match\<close> with a global expression tries the expression at every start
  position from the left; element 0 of its result is the match at the first position where
  the expression matches. A matcher below tells whether its expression matches at the head
  of a string and returns the matched text.
\<close>

fun search :: "(string \<Rightarrow> string option) \<Rightarrow> string \<Rightarrow> string option" where
  "search m [] = m []"
| "search m (c # s) = (case m (c # s) of Some t \<Rightarrow> Some t | None \<Rightarrow> search m s)"

text \<open>
  An alternation of literals under the flag \<^verbatim>\<open>i\<close>, at the head of a string: the first
  alternative that is there, in the text's own letter case. The literals are lower-case
  ASCII, so comparing after \<^const>\<open>toLowerCase\<close> is the case-insensitive comparison.
\<close>

fun match_alt_ci :: "string list \<Rightarrow> string \<Rightarrow> string option" where
  "match_alt_ci [] s = None"
| "match_alt_ci (a # as) s =
     (if length a \<le> length s \<and> toLowerCase (take (length a) s) = a then Some (take (length a) s)
      else match_alt_ci as s)"

text \<open>
  \<^verbatim>\<open>/(\d+[.,]?\d*)\s*(jt|juta)/gi\<close> and \<^verbatim>\<open>/(\d+[.,]?\d*)\s*(rb|ribu|k)/gi\<close> at the head
  of a string. Each part takes all it can; giving characters back never helps, since what
  follows a part cannot start with a character of that part.
\<close>

definition extract_suffixed_at :: "string list \<Rightarrow> string \<Rightarrow> string option" where
  "extract_suffixed_at sufs s =
     (let d1 = takeWhile is_digit s; r1 = dropWhile is_digit s in
      if d1 = [] then None
      else
        let sp = (case r1 of c # r' \<Rightarrow> if is_sep c then [c] else [] | [] \<Rightarrow> []);
            r2 = drop (length sp) r1;
            d2 = takeWhile is_digit r2; r3 = dropWhile is_digit r2;
            ws = takeWhile is_space r3; r4 = dropWhile is_space r3
        in case match_alt_ci sufs r4 of
             Some suf \<Rightarrow> Some (d1 @ sp @ d2 @ ws @ suf)
           | None \<Rightarrow> None)"

text \<open>\<^verbatim>\<open>(?:[.,]\d{3})*\<close>, greedy: the text of the groups at the head of a string.\<close>

fun take_groups :: "string \<Rightarrow> string" where
  "take_groups (c # d1 # d2 # d3 # r) =
     (if is_sep c \<and> is_digit d1 \<and> is_digit d2 \<and> is_digit d3
      then c # d1 # d2 # d3 # take_groups r else [])"
| "take_groups _ = []"

text \<open>
  \<^verbatim>\<open>/(\d{1,3}(?:[.,]\d{3})+)/g\<close> at the head of a string. With more than three digits at
  the head, every choice of one to three of them is followed by a digit, and the
  expression does not match here.
\<close>

definition extract_thousandSep_at :: "string \<Rightarrow> string option" where
  "extract_thousandSep_at s =
     (let d = takeWhile is_digit s; r = dropWhile is_digit s in
      if 1 \<le> length d \<and> length d \<le> 3 \<and> take_groups r \<noteq> [] then Some (d @ take_groups r)
      else None)"

text \<open>
  \<^verbatim>\<open>/\b(\d{2,})\b/g\<close>. The word boundary in front depends on the character before the
  start position, so the search carries it along.
\<close>

definition extract_plain_at :: "char option \<Rightarrow> string \<Rightarrow> string option" where
  "extract_plain_at prev s =
     (let d = takeWhile is_digit s; r = dropWhile is_digit s in
      if (case prev of None \<Rightarrow> True | Some p \<Rightarrow> \<not> is_word p) \<and> 2 \<le> length d
         \<and> (case r of [] \<Rightarrow> True | c # _ \<Rightarrow> \<not> is_word c)
      then Some d else None)"

fun search_plain :: "char option \<Rightarrow> string \<Rightarrow> string option" where
  "search_plain prev [] = None"
| "search_plain prev (c # s) =
     (case extract_plain_at prev (c # s) of Some t \<Rightarrow> Some t | None \<Rightarrow> search_plain (Some c) s)"

text \<open>The list \<^verbatim>\<open>amountPatterns\<close>, in its order, as searches over the whole string.\<close>

definition amountPatterns :: "(string \<Rightarrow> string option) list" where
  "amountPatterns =
     [search (extract_suffixed_at [''jt'', ''juta'']),
      search (extract_suffixed_at [''rb'', ''ribu'', ''k'']),
      search extract_thousandSep_at,
      search_plain None]"

text \<open>The loop over the patterns: the first one with a match gives \<^verbatim>\<open>amountStr\<close>.\<close>

fun first_match :: "(string \<Rightarrow> string option) list \<Rightarrow> string \<Rightarrow> string option" where
  "first_match [] s = None"
| "first_match (p # ps) s = (case p s of Some t \<Rightarrow> Some t | None \<Rightarrow> first_match ps s)"

subsection \<open>The description\<close>

text \<open>\<^verbatim>\<open>s.replace(t, '')\<close> with a string \<open>t\<close>: the first occurrence of \<open>t\<close> goes.\<close>

fun remove_first :: "string \<Rightarrow> string \<Rightarrow> string" where
  "remove_first t [] = []"
| "remove_first t (c # s) =
     (if prefix t (c # s) then drop (length t) (c # s) else c # remove_first t s)"

text \<open>\<^verbatim>\<open>s.replace(/\s+/g, ' ')\<close>.\<close>

function collapse_spaces :: "string \<Rightarrow> string" where
  "collapse_spaces [] = []"
| "collapse_spaces (c # s) =
     (if is_space c then CHR '' '' # collapse_spaces (dropWhile is_space s)
      else c # collapse_spaces s)"
  by pat_completeness auto
termination
  by (relation "measure length") (auto simp: length_dropWhile_le less_Suc_eq_le)

text \<open>\<^verbatim>\<open>s.replace(/^[,.\-:]+|[,.\-:]+$/g, '')\<close>.\<close>

definition strip_punct :: "string \<Rightarrow> string" where
  "strip_punct s = rev (dropWhile is_punct (rev (dropWhile is_punct s)))"

subsection \<open>\<^verbatim>\<open>parseInput\<close>\<close>

record ParsedInput =
  description :: string
  amount :: rat

definition parseInput :: "string \<Rightarrow> ParsedInput option" where
  "parseInput input =
     (let trimmed = trim input in
      if trimmed = [] then None
      else case first_match amountPatterns trimmed of
        None \<Rightarrow> None
      | Some amountStr \<Rightarrow>
          (case parseAmount amountStr of
             None \<Rightarrow> None
           | Some amt \<Rightarrow>
               if amt \<le> 0 then None
               else
                 let desc = trim (strip_punct (collapse_spaces (trim (remove_first amountStr trimmed))))
                 in if desc = [] then None
                    else Some \<lparr>description = desc, amount = amt\<rparr>))"

text \<open>\<^verbatim>\<open>Number.isInteger\<close> on a number of the model.\<close>

definition isInteger :: "rat \<Rightarrow> bool" where
  "isInteger x = (rat_of_int \<lfloor>x\<rfloor> = x)"

section \<open>The learned-mapping store (\<^verbatim>\<open>db/index.ts\<close>)\<close>

datatype Category = food | transport | bills | shopping | entertainment | income | other

record CategoryMapping =
  keyword :: string
  category :: Category
  count :: nat

text \<open>
  The table \<^verbatim>\<open>categoryMappings\<close>, keyed by keyword. A request to the store is a promise
  that may reject: \<open>reads_fail\<close> and \<open>writes_fail\<close> say whether the requests of each kind
  reject in this state of the store.
\<close>

record db =
  categoryMappings :: "string \<rightharpoonup> CategoryMapping"
  reads_fail :: bool
  writes_fail :: bool

datatype db_error = DbError

definition getCategoryMapping :: "db \<Rightarrow> string \<Rightarrow> db_error + CategoryMapping option" where
  "getCategoryMapping d kw =
     (if reads_fail d then Inl DbError else Inr (categoryMappings d (toLowerCase kw)))"

definition setCategoryMapping :: "db \<Rightarrow> string \<Rightarrow> Category \<Rightarrow> db_error + db" where
  "setCategoryMapping d kw cat =
     (if reads_fail d then Inl DbError
      else case categoryMappings d (toLowerCase kw) of
        Some existing \<Rightarrow>
          if writes_fail d then Inl DbError
          else Inr (d\<lparr>categoryMappings := (categoryMappings d)(toLowerCase kw \<mapsto>
                       existing\<lparr>category := cat, count := count existing + 1\<rparr>)\<rparr>)
      | None \<Rightarrow>
          if writes_fail d then Inl DbError
          else Inr (d\<lparr>categoryMappings := (categoryMappings d)(toLowerCase kw \<mapsto>
                       \<lparr>keyword = toLowerCase kw, category = cat, count = 1\<rparr>)\<rparr>))"

section \<open>The categorizer (\<^verbatim>\<open>categorizer.ts\<close>)\<close>

subsection \<open>The static keyword table\<close>

text \<open>
  \<^verbatim>\<open>DEFAULT_KEYWORDS\<close> is an object literal; \<^verbatim>\<open>Object.entries\<close> and \<^verbatim>\<open>Object.keys\<close>
  enumerate its own properties in the order they are written.
\<close>

definition DEFAULT_KEYWORDS :: "(string \<times> Category) list" where
  "DEFAULT_KEYWORDS =
     [(''bakso'', food), (''mie'', food), (''nasi'', food), (''kopi'', food),
      (''gofood'', food), (''grabfood'', food), (''makan'', food), (''ayam'', food),
      (''sate'', food), (''soto'', food), (''warung'', food), (''resto'', food),
      (''restaurant'', food), (''cafe'', food), (''starbucks'', food), (''mcdonalds'', food),
      (''kfc'', food), (''pizza'', food), (''burger'', food), (''indomie'', food),
      (''snack'', food), (''grab'', transport), (''gojek'', transport),
      (''bensin'', transport), (''parkir'', transport), (''tol'', transport),
      (''ojol'', transport), (''ojek'', transport), (''taxi'', transport),
      (''taksi'', transport), (''bus'', transport), (''kereta'', transport),
      (''mrt'', transport), (''lrt'', transport), (''transjakarta'', transport),
      (''angkot'', transport), (''bbm'', transport), (''pertamina'', transport),
      (''shell'', transport), (''listrik'', bills), (''pln'', bills), (''wifi'', bills),
      (''pulsa'', bills), (''sewa'', bills), (''kos'', bills), (''kontrakan'', bills),
      (''pdam'', bills), (''air'', bills), (''internet'', bills), (''indihome'', bills),
      (''biznet'', bills), (''telkomsel'', bills), (''xl'', bills), (''indosat'', bills),
      (''three'', bills), (''tri'', bills), (''shopee'', shopping),
      (''tokopedia'', shopping), (''baju'', shopping), (''indomaret'', shopping),
      (''alfamart'', shopping), (''lazada'', shopping), (''bukalapak'', shopping),
      (''blibli'', shopping), (''zalora'', shopping), (''uniqlo'', shopping),
      (''hm'', shopping), (''zara'', shopping), (''sepatu'', shopping),
      (''celana'', shopping), (''kaos'', shopping), (''supermarket'', shopping),
      (''mall'', shopping), (''netflix'', entertainment), (''spotify'', entertainment),
      (''bioskop'', entertainment), (''game'', entertainment), (''cinema'', entertainment),
      (''xxi'', entertainment), (''cgv'', entertainment), (''youtube'', entertainment),
      (''disney'', entertainment), (''steam'', entertainment),
      (''playstation'', entertainment), (''xbox'', entertainment),
      (''nintendo'', entertainment), (''konser'', entertainment), (''tiket'', entertainment),
      (''gaji'', income), (''salary'', income), (''freelance'', income), (''bonus'', income),
      (''thr'', income), (''dividen'', income), (''bunga'', income), (''cashback'', income),
      (''refund'', income), (''transfer'', income)]"

text \<open>
  The prototype of an object literal is \<^verbatim>\<open>Object.prototype\<close>. The operator \<^verbatim>\<open>in\<close> and
  a property read \<^verbatim>\<open>obj[key]\<close> follow the prototype chain, so they also find the
  properties below, which every object inherits.
\<close>

definition Object_prototype_keys :: "string list" where
  "Object_prototype_keys =
     [''constructor'', ''__defineGetter__'', ''__defineSetter__'', ''hasOwnProperty'',
      ''__lookupGetter__'', ''__lookupSetter__'', ''isPrototypeOf'', ''propertyIsEnumerable'',
      ''toString'', ''valueOf'', ''__proto__'', ''toLocaleString'']"

text \<open>
  What a read of the table gives: the category of an own property, or the inherited value
  of \<^verbatim>\<open>Object.prototype\<close> under that name, which is a function or an object and not a
  category.
\<close>

datatype table_value = Cat Category | Inherited string

definition key_in :: "string \<Rightarrow> bool" where
  "key_in w = (map_of DEFAULT_KEYWORDS w \<noteq> None \<or> w \<in> set Object_prototype_keys)"

definition table_get :: "string \<Rightarrow> table_value" where
  "table_get w = (case map_of DEFAULT_KEYWORDS w of Some c \<Rightarrow> Cat c | None \<Rightarrow> Inherited w)"

subsection \<open>Edit distance and similarity\<close>

text \<open>
  \<^verbatim>\<open>levenshteinDistance\<close> fills the table \<^verbatim>\<open>dp\<close> row by row. \<open>fill_row\<close> is the inner loop
  for one \<open>i\<close>: it walks along \<^verbatim>\<open>str2\<close> with the row above (from \<^verbatim>\<open>dp[i-1][j-1]\<close> on) and
  the cell to the left, \<^verbatim>\<open>dp[i][j-1]\<close>.
\<close>

fun fill_row :: "char \<Rightarrow> string \<Rightarrow> nat list \<Rightarrow> nat \<Rightarrow> nat list" where
  "fill_row a (b # bs) (diag # up # upper) left =
     (let v = (if a = b then diag else 1 + min up (min left diag))
      in v # fill_row a bs (up # upper) v)"
| "fill_row a _ _ left = []"

text \<open>The outer loop: \<open>upper\<close> is row \<open>i\<close>, and the characters of \<^verbatim>\<open>str1\<close> from \<open>i\<close> on remain.\<close>

fun fill_rows :: "string \<Rightarrow> string \<Rightarrow> nat \<Rightarrow> nat list \<Rightarrow> nat list" where
  "fill_rows [] str2 i upper = upper"
| "fill_rows (a # as) str2 i upper =
     fill_rows as str2 (Suc i) (Suc i # fill_row a str2 upper (Suc i))"

definition levenshteinDistance :: "string \<Rightarrow> string \<Rightarrow> nat" where
  "levenshteinDistance str1 str2 = last (fill_rows str1 str2 0 [0..<Suc (length str2)])"


definition stringSimilarity :: "string \<Rightarrow> string \<Rightarrow> rat" where
  "stringSimilarity str1 str2 =
     (let maxLength = max (length str1) (length str2) in
      if maxLength = 0 then 1
      else 1 - rat_of_nat (levenshteinDistance str1 str2) / rat_of_nat maxLength)"

text \<open>The loop of \<^verbatim>\<open>findFuzzyMatch\<close>, with \<^verbatim>\<open>bestMatch\<close> as its state.\<close>

fun fuzzy_loop :: "string \<Rightarrow> rat \<Rightarrow> string list \<Rightarrow> (string \<times> rat) option \<Rightarrow> (string \<times> rat) option" where
  "fuzzy_loop input threshold [] bestMatch = bestMatch"
| "fuzzy_loop input threshold (kw # kws) bestMatch =
     (let similarity = stringSimilarity input kw in
      fuzzy_loop input threshold kws
        (if threshold \<le> similarity
            \<and> (case bestMatch of None \<Rightarrow> True | Some (_, best) \<Rightarrow> best < similarity)
         then Some (kw, similarity) else bestMatch))"

definition findFuzzyMatch :: "string \<Rightarrow> string list \<Rightarrow> rat \<Rightarrow> (string \<times> rat) option" where
  "findFuzzyMatch input kws threshold = fuzzy_loop input threshold kws None"

subsection \<open>Splitting a description into words\<close>

text \<open>\<^verbatim>\<open>s.split(/\s+/)\<close>: the pieces between the runs of white space; never an empty list.\<close>

function split_ws :: "string \<Rightarrow> string list" where
  "split_ws s =
     (case dropWhile (\<lambda>c. \<not> is_space c) s of
        [] \<Rightarrow> [takeWhile (\<lambda>c. \<not> is_space c) s]
      | c # r \<Rightarrow> takeWhile (\<lambda>c. \<not> is_space c) s # split_ws (dropWhile is_space r))"
  by pat_completeness auto
termination
proof (relation "measure length")
  fix s :: string and c r
  assume "dropWhile (\<lambda>c. \<not> is_space c) s = c # r"
  then have "length (c # r) \<le> length s"
    by (metis length_dropWhile_le)
  moreover have "length (dropWhile is_space r) \<le> length r"
    by (rule length_dropWhile_le)
  ultimately show "(dropWhile is_space r, s) \<in> measure length"
    by simp
qed simp

declare split_ws.simps [simp del]

subsection \<open>The passes of \<^verbatim>\<open>categorize\<close>\<close>

text \<open>Pass 1: each word is looked up in the store; a rejected read ends the call.\<close>

fun learned_pass :: "db \<Rightarrow> string list \<Rightarrow> db_error + Category option" where
  "learned_pass d [] = Inr None"
| "learned_pass d (w # ws) =
     (case getCategoryMapping d w of
        Inl e \<Rightarrow> Inl e
      | Inr (Some mapping) \<Rightarrow> Inr (Some (category mapping))
      | Inr None \<Rightarrow> learned_pass d ws)"

text \<open>Pass 2: \<^verbatim>\<open>if (word in DEFAULT_KEYWORDS) return DEFAULT_KEYWORDS[word]\<close>.\<close>

fun exact_pass :: "string list \<Rightarrow> table_value option" where
  "exact_pass [] = None"
| "exact_pass (w # ws) = (if key_in w then Some (table_get w) else exact_pass ws)"

text \<open>Pass 3, the inner loop over the entries of the table for one word.\<close>

fun partial_entries :: "string \<Rightarrow> (string \<times> Category) list \<Rightarrow> Category option" where
  "partial_entries w [] = None"
| "partial_entries w ((kw, cat) # es) =
     (if (str_includes w kw \<or> str_includes kw w) \<and> 3 \<le> length w \<and> 3 \<le> length kw then Some cat
      else partial_entries w es)"

fun partial_pass :: "string list \<Rightarrow> Category option" where
  "partial_pass [] = None"
| "partial_pass (w # ws) =
     (case partial_entries w DEFAULT_KEYWORDS of Some cat \<Rightarrow> Some cat | None \<Rightarrow> partial_pass ws)"

text \<open>
  Pass 4. The keyword of a fuzzy match is an own key of the table, so the read gives its
  category.
\<close>

fun fuzzy_pass :: "string list \<Rightarrow> table_value option" where
  "fuzzy_pass [] = None"
| "fuzzy_pass (w # ws) =
     (if 3 \<le> length w
      then (case findFuzzyMatch w (map fst DEFAULT_KEYWORDS) (7 / 10) of
              Some (kw, _) \<Rightarrow> Some (table_get kw)
            | None \<Rightarrow> fuzzy_pass ws)
      else fuzzy_pass ws)"

text \<open>Passes 2 to 4, which \<^verbatim>\<open>categorize\<close> and \<^verbatim>\<open>categorizeFromDefaults\<close> share.\<close>

definition static_passes :: "string list \<Rightarrow> table_value option" where
  "static_passes ws =
     (case exact_pass ws of
        Some v \<Rightarrow> Some v
      | None \<Rightarrow>
          (case partial_pass ws of
             Some cat \<Rightarrow> Some (Cat cat)
           | None \<Rightarrow> fuzzy_pass ws))"

subsection \<open>\<^verbatim>\<open>categorize\<close> and \<^verbatim>\<open>categorizeFromDefaults\<close>\<close>

definition categorize :: "db \<Rightarrow> string \<Rightarrow> db_error + table_value option" where
  "categorize d desc =
     (if desc = [] \<or> length (trim desc) = 0 then Inr None
      else
        let normalizedDescription = trim (toLowerCase desc);
            ws = split_ws normalizedDescription
        in case learned_pass d ws of
             Inl e \<Rightarrow> Inl e
           | Inr (Some cat) \<Rightarrow> Inr (Some (Cat cat))
           | Inr None \<Rightarrow> Inr (static_passes ws))"

definition categorizeFromDefaults :: "string \<Rightarrow> table_value option" where
  "categorizeFromDefaults desc =
     (if desc = [] \<or> length (trim desc) = 0 then None
      else
        let normalizedDescription = trim (toLowerCase desc);
            ws = split_ws normalizedDescription
        in static_passes ws)"

section \<open>The remote classifier (\<^verbatim>\<open>gemini.ts\<close>)\<close>

definition VALID_CATEGORIES :: "Category list" where
  "VALID_CATEGORIES = [food, transport, bills, shopping, entertainment, income, other]"

text \<open>A category is a string of the source; this is its text.\<close>

fun category_name :: "Category \<Rightarrow> string" where
  "category_name food = ''food''"
| "category_name transport = ''transport''"
| "category_name bills = ''bills''"
| "category_name shopping = ''shopping''"
| "category_name entertainment = ''entertainment''"
| "category_name income = ''income''"
| "category_name other = ''other''"

fun parse_loop :: "string \<Rightarrow> Category list \<Rightarrow> Category" where
  "parse_loop trimmed [] = other"
| "parse_loop trimmed (c # cs) =
     (if trimmed = category_name c \<or> str_includes trimmed (category_name c) then c
      else parse_loop trimmed cs)"

definition parseCategory :: "string \<Rightarrow> Category" where
  "parseCategory response = parse_loop (trim (toLowerCase response)) VALID_CATEGORIES"

text \<open>
  What the call to the endpoint can come to: \<^verbatim>\<open>fetch\<close> throws, or there is a response
  with its flag \<^verbatim>\<open>ok\<close>, whose body fails to parse or parses. Of the parsed body only
  \<^verbatim>\<open>data?.candidates?.[0]?.content?.parts?.[0]?.text\<close> is read: it is missing (or another
  falsy value), a string, or a truthy value that is not a string.
\<close>

datatype reply_text = Missing | Text string | NotAString

datatype body = JsonThrows | Json reply_text

datatype fetch_outcome = FetchThrows | Response bool body

text \<open>
  The environment of a call: the key of \<^verbatim>\<open>import.meta.env\<close>, and what the endpoint does
  with the request for a description.
\<close>

record env =
  apiKey :: "string option"
  fetch :: "string \<Rightarrow> fetch_outcome"

datatype warning =
  KeyNotConfigured | ApiError | EmptyResponse | MappingNotSaved | CallFailed

text \<open>\<^verbatim>\<open>!apiKey\<close>: the key is undefined or the empty string.\<close>

definition no_key :: "env \<Rightarrow> bool" where
  "no_key e = (case apiKey e of None \<Rightarrow> True | Some k \<Rightarrow> k = [])"

definition isGeminiAvailable :: "env \<Rightarrow> bool" where
  "isGeminiAvailable e = (\<not> no_key e)"

text \<open>\<^verbatim>\<open>words.find(word => !/^\d/.test(word) && word.length >= 2)\<close>.\<close>

definition starts_with_digit :: "string \<Rightarrow> bool" where
  "starts_with_digit w = (case w of [] \<Rightarrow> False | c # _ \<Rightarrow> is_digit c)"

definition main_keyword :: "string \<Rightarrow> string option" where
  "main_keyword desc =
     find (\<lambda>w. \<not> starts_with_digit w \<and> 2 \<le> length w) (split_ws (trim (toLowerCase desc)))"

text \<open>
  The result of a call is the category, the store after the call, and the warnings written
  to the console.
\<close>

definition categorizeWithGemini :: "env \<Rightarrow> db \<Rightarrow> string \<Rightarrow> bool \<Rightarrow> Category \<times> db \<times> warning list" where
  "categorizeWithGemini e d desc saveToMappings =
     (if no_key e then (other, d, [KeyNotConfigured])
      else case fetch e desc of
        FetchThrows \<Rightarrow> (other, d, [CallFailed])
      | Response ok b \<Rightarrow>
          if \<not> ok then (other, d, [ApiError])
          else (case b of
            JsonThrows \<Rightarrow> (other, d, [CallFailed])
          | Json Missing \<Rightarrow> (other, d, [EmptyResponse])
          | Json NotAString \<Rightarrow> (other, d, [CallFailed])
          | Json (Text t) \<Rightarrow>
              if t = [] then (other, d, [EmptyResponse])
              else
                let cat = parseCategory t in
                if saveToMappings \<and> cat \<noteq> other
                then (case main_keyword desc of
                        None \<Rightarrow> (cat, d, [])
                      | Some kw \<Rightarrow>
                          (case setCategoryMapping d kw cat of
                             Inl err \<Rightarrow> (cat, d, [MappingNotSaved])
                           | Inr d' \<Rightarrow> (cat, d', [])))
                else (cat, d, [])))"

text \<open>\<^verbatim>\<open>categorizeWithFallback\<close>; a rejected read of pass 1 rejects the call.\<close>

definition categorizeWithFallback ::
    "env \<Rightarrow> db \<Rightarrow> string \<Rightarrow> bool \<Rightarrow> db_error + (table_value \<times> db \<times> warning list)" where
  "categorizeWithFallback e d desc useGemini =
     (case categorize d desc of
        Inl err \<Rightarrow> Inl err
      | Inr (Some localCategory) \<Rightarrow> Inr (localCategory, d, [])
      | Inr None \<Rightarrow>
          if useGemini \<and> isGeminiAvailable e
          then (case categorizeWithGemini e d desc True of
                  (cat, d', warnings) \<Rightarrow> Inr (Cat cat, d', warnings))
          else Inr (Cat other, d, []))"

text \<open>
  Auxiliary notions for the proofs: a literal suffix of the grammars starts with a letter
  and does not end in white space.
\<close>

definition letter_suffix :: "string \<Rightarrow> bool" where
  "letter_suffix l = (l \<noteq> [] \<and> \<not> is_digit (hd l) \<and> \<not> is_sep (hd l) \<and> \<not> is_space (hd l)
                        \<and> \<not> is_space (last l) \<and> \<not> is_digit (last l))"

definition letter_suffixes :: "string list \<Rightarrow> bool" where
  "letter_suffixes sufs = (\<forall>l \<in> set sufs. letter_suffix l)"

text \<open>The character in front of position \<open>i\<close> of a string that follows \<open>prev\<close>.\<close>

definition char_before :: "char option \<Rightarrow> string \<Rightarrow> nat \<Rightarrow> char option" where
  "char_before prev s i = (if i = 0 then prev else Some (s ! (i - 1)))"






section \<open>Properties of the amount parser\<close>

subsection \<open>Integers\<close>

lemma isInteger_iff: "isInteger x \<longleftrightarrow> x \<in> \<int>"
  by (auto simp: isInteger_def Ints_def)

lemma isInteger_of_nat: "isInteger (rat_of_nat n)"
  by (simp add: isInteger_def)

lemma isInteger_Math_round: "isInteger (Math_round x)"
  by (simp add: isInteger_def Math_round_def)

lemma isInteger_suffixed_value: "isInteger (suffixed_value m g)"
  by (cases g) (simp add: suffixed_value_def isInteger_Math_round Let_def)

subsection \<open>The decimal fallback\<close>

lemma sep_not_digit: "is_sep c \<Longrightarrow> \<not> is_digit c"
  by (auto simp: is_sep_def is_digit_def code_def)




lemma parseAmount_integer_otherwise:
  assumes "parseAmount t = Some v"
    and "\<not> (\<exists>w f. match_decimal (toLowerCase (trim t)) = Some (w, f) \<and> length f < 3)"
  shows "isInteger v"
  using assms unfolding parseAmount_def Let_def
  by (auto simp: isInteger_of_nat isInteger_suffixed_value split: if_splits option.splits)




subsection \<open>Suffix, separator and plain tokens\<close>

lemma digit_not_space: "is_digit c \<Longrightarrow> \<not> is_space c"
  by (auto simp: is_digit_def is_space_def)

lemma space_not_sep: "is_space c \<Longrightarrow> \<not> is_sep c"
  by (auto simp: is_sep_def is_space_def code_def)

lemma lower_char_digit: "is_digit c \<Longrightarrow> lower_char c = c"
  by (auto simp: is_digit_def lower_char_def)


lemma lower_char_sep: "is_sep c \<Longrightarrow> lower_char c = c"
  by (auto simp: is_sep_def lower_char_def code_def)

lemma toLowerCase_fixed: "list_all (\<lambda>c. lower_char c = c) s \<Longrightarrow> toLowerCase s = s"
  by (induction s) (auto simp: toLowerCase_def)

lemma toLowerCase_digits: "list_all is_digit s \<Longrightarrow> toLowerCase s = s"
  by (induction s) (auto simp: toLowerCase_def lower_char_digit)




lemma code_lower_char:
  "code (lower_char c) = (if (65 \<le> code c \<and> code c \<le> 90) \<or> (192 \<le> code c \<and> code c \<le> 222 \<and> code c \<noteq> 215)
      then code c + 32 else code c)"
  by (auto simp: lower_char_def code_def)

lemma is_space_lower_char: "is_space (lower_char c) = is_space c"
  by (auto simp: is_space_def code_lower_char)

lemma is_digit_lower_char: "is_digit (lower_char c) = is_digit c"
  by (auto simp: is_digit_def code_lower_char)

lemma is_sep_code: "is_sep c = (code c = 46 \<or> code c = 44)"
proof -
  have "c = CHR ''.'' \<longleftrightarrow> (of_char c :: nat) = of_char (CHR ''.'')"
    by (simp only: of_char_eq_iff)
  moreover have "c = CHR '','' \<longleftrightarrow> (of_char c :: nat) = of_char (CHR '','')"
    by (simp only: of_char_eq_iff)
  ultimately show ?thesis
    by (simp add: is_sep_def code_def)
qed

lemma is_sep_lower_char: "is_sep (lower_char c) = is_sep c"
  by (auto simp: is_sep_code code_lower_char)

lemma takeWhile_stop: "s = [] \<or> \<not> P (hd s) \<Longrightarrow> takeWhile P s = []"
  by (cases s) auto

lemma dropWhile_stop: "s = [] \<or> \<not> P (hd s) \<Longrightarrow> dropWhile P s = s"
  by (cases s) auto

lemma trim_id: "s \<noteq> [] \<Longrightarrow> \<not> is_space (hd s) \<Longrightarrow> \<not> is_space (last s) \<Longrightarrow> trim s = s"
  by (simp add: trim_def dropWhile_stop hd_rev)




lemma lowered_token:
  assumes "toLowerCase s = l" "l \<noteq> []"
  shows "s \<noteq> []" "is_digit (hd s) = is_digit (hd l)" "is_sep (hd s) = is_sep (hd l)"
    "is_space (hd s) = is_space (hd l)" "is_space (last s) = is_space (last l)"
    "is_digit (last s) = is_digit (last l)"
proof -
  show ne: "s \<noteq> []"
    using assms by (auto simp: toLowerCase_def)
  have h: "hd l = lower_char (hd s)" and la: "last l = lower_char (last s)"
    using assms ne by (auto simp: toLowerCase_def hd_map last_map)
  show "is_digit (hd s) = is_digit (hd l)" "is_sep (hd s) = is_sep (hd l)"
    "is_space (hd s) = is_space (hd l)" "is_space (last s) = is_space (last l)"
    "is_digit (last s) = is_digit (last l)"
    by (simp_all add: h la is_digit_lower_char is_sep_lower_char is_space_lower_char)
qed

lemma letter_suffix_literals:
  "letter_suffix ''jt''" "letter_suffix ''juta''" "letter_suffix ''rb''" "letter_suffix ''ribu''"
  "letter_suffix ''k''"
  by (simp_all add: letter_suffix_def is_digit_def is_sep_def is_space_def code_def)









lemma only_groups_rest: "only_groups r \<Longrightarrow> r = [] \<or> is_sep (hd r)"
  by (cases r rule: only_groups.cases) auto

lemma thousandSep_not_suffixed:
  assumes "match_thousandSep c" "letter_suffixes sufs"
  shows "match_suffixed sufs c = None"
proof -
  from assms(1) have w: "takeWhile is_digit c \<noteq> []" and r: "dropWhile is_digit c \<noteq> []"
    and g: "only_groups (dropWhile is_digit c)"
    by (auto simp: match_thousandSep_def Let_def)
  from r g obtain s d1 d2 d3 r' where dw: "dropWhile is_digit c = s # d1 # d2 # d3 # r'"
    and s: "is_sep s" and d: "is_digit d1" "is_digit d2" "is_digit d3" and g': "only_groups r'"
    by (cases "dropWhile is_digit c" rule: only_groups.cases) auto
  have r': "r' = [] \<or> is_sep (hd r')"
    using g' by (rule only_groups_rest)
  have st: "dropWhile is_digit r' = r'" "dropWhile is_space r' = r'"
    using r' sep_not_digit[of "hd r'"] space_not_sep[of "hd r'"]
    by (auto intro: dropWhile_stop)
  have "r' \<notin> set sufs"
    using r' assms(2) by (auto simp: letter_suffixes_def letter_suffix_def)
  then show ?thesis
    using w s d by (simp add: match_suffixed_def Let_def dw st)
qed

lemma plain_not_suffixed:
  assumes "match_plain c" "letter_suffixes sufs"
  shows "match_suffixed sufs c = None" "\<not> match_thousandSep c"
proof -
  from assms(1) have dw: "dropWhile is_digit c = []"
    by (simp add: match_plain_def list_all_iff)
  have "[] \<notin> set sufs"
    using assms(2) by (auto simp: letter_suffixes_def letter_suffix_def)
  then show "match_suffixed sufs c = None"
    unfolding match_suffixed_def Let_def dw by simp
  show "\<not> match_thousandSep c"
    unfolding match_thousandSep_def Let_def dw by simp
qed

lemma letter_suffixes_literals:
  "letter_suffixes [''jt'', ''juta'']" "letter_suffixes [''rb'', ''ribu'', ''k'']"
  by (simp_all add: letter_suffixes_def letter_suffix_literals)

lemma parseAmount_thousandSep:
  assumes "match_thousandSep (toLowerCase (trim g))"
  shows "parseAmount g = Some (rat_of_nat (parseInt (strip_seps (toLowerCase (trim g)))))"
proof -
  have "toLowerCase (trim g) \<noteq> []"
    using assms by (auto simp: match_thousandSep_def)
  moreover have "match_suffixed [''jt'', ''juta''] (toLowerCase (trim g)) = None"
    "match_suffixed [''rb'', ''ribu'', ''k''] (toLowerCase (trim g)) = None"
    using assms letter_suffixes_literals by (simp_all only: thousandSep_not_suffixed)
  ultimately show ?thesis
    using assms unfolding parseAmount_def Let_def by simp
qed

lemma parseAmount_plain:
  assumes "match_plain (toLowerCase (trim p))"
  shows "parseAmount p = Some (rat_of_nat (parseInt (toLowerCase (trim p))))"
proof -
  have "toLowerCase (trim p) \<noteq> []"
    using assms by (auto simp: match_plain_def)
  moreover have "match_suffixed [''jt'', ''juta''] (toLowerCase (trim p)) = None"
    "match_suffixed [''rb'', ''ribu'', ''k''] (toLowerCase (trim p)) = None"
    "\<not> match_thousandSep (toLowerCase (trim p))"
    using assms letter_suffixes_literals by (simp_all only: plain_not_suffixed simp_thms)
  ultimately show ?thesis
    using assms unfolding parseAmount_def Let_def by simp
qed










section \<open>Properties of the input splitter\<close>

subsection \<open>Searching for the amount\<close>

lemma search_iff:
  "search m s = Some t \<longleftrightarrow> (\<exists>i\<le>length s. m (drop i s) = Some t \<and> (\<forall>j<i. m (drop j s) = None))"
proof (induction s)
  case Nil
  then show ?case by simp
next
  case (Cons c s)
  show ?case
  proof (cases "m (c # s)")
    case None
    have "(\<exists>i\<le>length (c # s). m (drop i (c # s)) = Some t \<and> (\<forall>j<i. m (drop j (c # s)) = None))
        \<longleftrightarrow> (\<exists>i\<le>length s. m (drop i s) = Some t \<and> (\<forall>j<i. m (drop j s) = None))"
      (is "?L \<longleftrightarrow> ?R")
    proof
      assume ?L
      then obtain i where i: "i \<le> length (c # s)" "m (drop i (c # s)) = Some t"
        "\<forall>j<i. m (drop j (c # s)) = None" by blast
      with None obtain i' where i': "i = Suc i'" by (cases i) auto
      have "\<forall>j<i'. m (drop j s) = None"
      proof (intro allI impI)
        fix j assume "j < i'"
        then have "Suc j < i" using i' by simp
        with i(3) have "m (drop (Suc j) (c # s)) = None" by blast
        then show "m (drop j s) = None" by simp
      qed
      with i i' show ?R by auto
    next
      assume ?R
      then obtain i where i: "i \<le> length s" "m (drop i s) = Some t" "\<forall>j<i. m (drop j s) = None"
        by blast
      have "\<forall>j<Suc i. m (drop j (c # s)) = None"
      proof (intro allI impI)
        fix j assume "j < Suc i"
        then show "m (drop j (c # s)) = None"
          using None i(3) by (cases j) auto
      qed
      with i show ?L by (intro exI[of _ "Suc i"]) auto
    qed
    with None Cons.IH show ?thesis by simp
  next
    case (Some t')
    have "(\<exists>i\<le>length (c # s). m (drop i (c # s)) = Some t \<and> (\<forall>j<i. m (drop j (c # s)) = None))
        \<longleftrightarrow> t' = t"
    proof
      assume "\<exists>i\<le>length (c # s). m (drop i (c # s)) = Some t \<and> (\<forall>j<i. m (drop j (c # s)) = None)"
      then obtain i where i: "m (drop i (c # s)) = Some t" "\<forall>j<i. m (drop j (c # s)) = None" by blast
      show "t' = t"
      proof (cases i)
        case 0
        with i Some show ?thesis by simp
      next
        case (Suc n)
        with i(2) have "m (drop 0 (c # s)) = None" by blast
        with Some show ?thesis by simp
      qed
    next
      assume "t' = t"
      with Some show "\<exists>i\<le>length (c # s). m (drop i (c # s)) = Some t \<and> (\<forall>j<i. m (drop j (c # s)) = None)"
        by (intro exI[of _ 0]) simp
    qed
    with Some show ?thesis by simp
  qed
qed

lemma first_match_iff:
  "first_match ps s = Some t \<longleftrightarrow> (\<exists>i<length ps. (ps ! i) s = Some t \<and> (\<forall>j<i. (ps ! j) s = None))"
proof (induction ps)
  case Nil
  then show ?case by simp
next
  case (Cons p ps)
  show ?case
  proof (cases "p s")
    case None
    have "(\<exists>i<length (p # ps). ((p # ps) ! i) s = Some t \<and> (\<forall>j<i. ((p # ps) ! j) s = None))
        \<longleftrightarrow> (\<exists>i<length ps. (ps ! i) s = Some t \<and> (\<forall>j<i. (ps ! j) s = None))"
      (is "?L \<longleftrightarrow> ?R")
    proof
      assume ?L
      then obtain i where i: "i < length (p # ps)" "((p # ps) ! i) s = Some t"
        "\<forall>j<i. ((p # ps) ! j) s = None" by blast
      with None obtain i' where i': "i = Suc i'" by (cases i) auto
      have "\<forall>j<i'. (ps ! j) s = None"
      proof (intro allI impI)
        fix j assume "j < i'"
        then have "Suc j < i" using i' by simp
        with i(3) have "((p # ps) ! Suc j) s = None" by blast
        then show "(ps ! j) s = None" by simp
      qed
      with i i' show ?R by auto
    next
      assume ?R
      then obtain i where i: "i < length ps" "(ps ! i) s = Some t" "\<forall>j<i. (ps ! j) s = None"
        by blast
      have "\<forall>j<Suc i. ((p # ps) ! j) s = None"
      proof (intro allI impI)
        fix j assume "j < Suc i"
        then show "((p # ps) ! j) s = None"
          using None i(3) by (cases j) auto
      qed
      with i show ?L by (intro exI[of _ "Suc i"]) auto
    qed
    with None Cons.IH show ?thesis by simp
  next
    case (Some t')
    have "(\<exists>i<length (p # ps). ((p # ps) ! i) s = Some t \<and> (\<forall>j<i. ((p # ps) ! j) s = None))
        \<longleftrightarrow> t' = t"
    proof
      assume "\<exists>i<length (p # ps). ((p # ps) ! i) s = Some t \<and> (\<forall>j<i. ((p # ps) ! j) s = None)"
      then obtain i where i: "((p # ps) ! i) s = Some t" "\<forall>j<i. ((p # ps) ! j) s = None" by blast
      show "t' = t"
      proof (cases i)
        case 0
        with i Some show ?thesis by simp
      next
        case (Suc n)
        with i(2) have "((p # ps) ! 0) s = None" by blast
        with Some show ?thesis by simp
      qed
    next
      assume "t' = t"
      with Some show "\<exists>i<length (p # ps). ((p # ps) ! i) s = Some t \<and> (\<forall>j<i. ((p # ps) ! j) s = None)"
        by (intro exI[of _ 0]) simp
    qed
    with Some show ?thesis by simp
  qed
qed

lemma char_before_Suc: "char_before prev (c # s) (Suc i) = char_before (Some c) s i"
  by (cases i) (simp_all add: char_before_def)

lemma search_plain_iff:
  "search_plain prev s = Some t \<longleftrightarrow>
     (\<exists>i<length s. extract_plain_at (char_before prev s i) (drop i s) = Some t
        \<and> (\<forall>j<i. extract_plain_at (char_before prev s j) (drop j s) = None))"
proof (induction s arbitrary: prev)
  case Nil
  then show ?case by simp
next
  case (Cons c s)
  let ?m = "\<lambda>i. extract_plain_at (char_before prev (c # s) i) (drop i (c # s))"
  let ?m' = "\<lambda>i. extract_plain_at (char_before (Some c) s i) (drop i s)"
  have shift: "?m (Suc i) = ?m' i" for i
    by (simp add: char_before_Suc)
  have zero: "?m 0 = extract_plain_at prev (c # s)"
    by (simp add: char_before_def)
  show ?case
  proof (cases "extract_plain_at prev (c # s)")
    case None
    have "(\<exists>i<length (c # s). ?m i = Some t \<and> (\<forall>j<i. ?m j = None))
        \<longleftrightarrow> (\<exists>i<length s. ?m' i = Some t \<and> (\<forall>j<i. ?m' j = None))"
      (is "?L \<longleftrightarrow> ?R")
    proof
      assume ?L
      then obtain i where i: "i < length (c # s)" "?m i = Some t" "\<forall>j<i. ?m j = None" by blast
      with None zero obtain i' where i': "i = Suc i'" by (cases i) auto
      have "\<forall>j<i'. ?m' j = None"
      proof (intro allI impI)
        fix j assume "j < i'"
        then have "Suc j < i" using i' by simp
        with i(3) have "?m (Suc j) = None" by blast
        then show "?m' j = None" by (simp only: shift)
      qed
      moreover have "?m' i' = Some t" using i(2) unfolding i' by (simp only: shift)
      ultimately show ?R using i(1) i' by auto
    next
      assume ?R
      then obtain i where i: "i < length s" "?m' i = Some t" "\<forall>j<i. ?m' j = None" by blast
      have "\<forall>j<Suc i. ?m j = None"
      proof (intro allI impI)
        fix j assume j: "j < Suc i"
        show "?m j = None"
        proof (cases j)
          case 0
          with None zero show ?thesis by simp
        next
          case (Suc j')
          with j i(3) have "?m' j' = None" by simp
          then show ?thesis unfolding Suc by (simp only: shift)
        qed
      qed
      moreover have "?m (Suc i) = Some t" using i(2) by (simp only: shift)
      ultimately show ?L using i(1) by (intro exI[of _ "Suc i"]) simp
    qed
    with None Cons.IH[of "Some c"] show ?thesis by simp
  next
    case (Some t')
    have "(\<exists>i<length (c # s). ?m i = Some t \<and> (\<forall>j<i. ?m j = None)) \<longleftrightarrow> t' = t"
    proof
      assume "\<exists>i<length (c # s). ?m i = Some t \<and> (\<forall>j<i. ?m j = None)"
      then obtain i where i: "?m i = Some t" "\<forall>j<i. ?m j = None" by blast
      show "t' = t"
      proof (cases i)
        case 0
        with i Some zero show ?thesis by simp
      next
        case (Suc n)
        with i(2) have "?m 0 = None" by blast
        with Some zero show ?thesis by simp
      qed
    next
      assume "t' = t"
      with Some zero show "\<exists>i<length (c # s). ?m i = Some t \<and> (\<forall>j<i. ?m j = None)"
        by (intro exI[of _ 0]) simp
    qed
    with Some show ?thesis by simp
  qed
qed

lemma prefix_take_groups: "prefix (take_groups r) r"
  by (induction r rule: take_groups.induct) auto

lemma match_alt_ci_prefix: "match_alt_ci sufs s = Some t \<Longrightarrow> prefix t s \<and> toLowerCase t \<in> set sufs"
proof (induction sufs)
  case Nil
  then show ?case by simp
next
  case (Cons a as)
  show ?case
  proof (cases "length a \<le> length s \<and> toLowerCase (take (length a) s) = a")
    case True
    with Cons.prems have "t = take (length a) s" by simp
    with True show ?thesis by (simp add: take_is_prefix)
  next
    case False
    with Cons show ?thesis by auto
  qed
qed

lemma extract_suffixed_at_prefix:
  assumes "extract_suffixed_at sufs p = Some t"
  shows "prefix t p"
proof -
  define d1 where "d1 = takeWhile is_digit p"
  define r1 where "r1 = dropWhile is_digit p"
  define sp where "sp = (case r1 of c # r' \<Rightarrow> if is_sep c then [c] else [] | [] \<Rightarrow> [])"
  define r2 where "r2 = drop (length sp) r1"
  define d2 where "d2 = takeWhile is_digit r2"
  define r3 where "r3 = dropWhile is_digit r2"
  define ws where "ws = takeWhile is_space r3"
  define r4 where "r4 = dropWhile is_space r3"
  from assms obtain suf where suf: "match_alt_ci sufs r4 = Some suf" and t: "t = d1 @ sp @ d2 @ ws @ suf"
    unfolding extract_suffixed_at_def Let_def d1_def r1_def sp_def r2_def d2_def r3_def ws_def r4_def
    by (auto split: if_splits option.splits)
  have "p = d1 @ r1" by (simp add: d1_def r1_def)
  moreover have "r1 = sp @ r2" by (auto simp: sp_def r2_def split: list.splits)
  moreover have "r2 = d2 @ r3" by (simp add: d2_def r3_def)
  moreover have "r3 = ws @ r4" by (simp add: ws_def r4_def)
  moreover obtain z where "r4 = suf @ z"
    using match_alt_ci_prefix[OF suf] by (auto simp: prefix_def)
  ultimately have "p = t @ z" by (simp add: t)
  then show ?thesis by simp
qed

lemma extract_thousandSep_at_prefix: "extract_thousandSep_at p = Some t \<Longrightarrow> prefix t p"
proof -
  assume "extract_thousandSep_at p = Some t"
  then have t: "t = takeWhile is_digit p @ take_groups (dropWhile is_digit p)"
    by (auto simp: extract_thousandSep_at_def Let_def split: if_splits)
  obtain z where "dropWhile is_digit p = take_groups (dropWhile is_digit p) @ z"
    using prefix_take_groups[of "dropWhile is_digit p"] by (auto simp: prefix_def)
  then have "p = t @ z"
    using takeWhile_dropWhile_id[of is_digit p] by (simp add: t)
  then show ?thesis by simp
qed

lemma extract_plain_at_prefix: "extract_plain_at prev p = Some t \<Longrightarrow> prefix t p"
  by (auto simp: extract_plain_at_def Let_def takeWhile_is_prefix split: if_splits)

lemma remove_first_occurrence:
  assumes "s = pre @ t @ post"
  shows "\<exists>pre' post'. s = pre' @ t @ post' \<and> remove_first t s = pre' @ post' \<and> length pre' \<le> length pre"
  using assms
proof (induction s arbitrary: pre)
  case Nil
  then show ?case by simp
next
  case (Cons c s)
  show ?case
  proof (cases "prefix t (c # s)")
    case True
    then obtain z where z: "c # s = t @ z" by (auto simp: prefix_def)
    have "remove_first t (c # s) = drop (length t) (c # s)"
      using True by simp
    also have "\<dots> = z"
      unfolding z by simp
    finally have "c # s = [] @ t @ z \<and> remove_first t (c # s) = [] @ z
        \<and> length ([] :: string) \<le> length pre"
      using z by simp
    then show ?thesis by blast
  next
    case False
    with Cons.prems obtain pre2 where pre2: "pre = c # pre2"
      by (cases pre) auto
    with Cons.prems have "s = pre2 @ t @ post" by simp
    from Cons.IH[OF this] obtain pre' post' where
      "s = pre' @ t @ post'" "remove_first t s = pre' @ post'" "length pre' \<le> length pre2"
      by blast
    then have "c # s = (c # pre') @ t @ post' \<and> remove_first t (c # s) = (c # pre') @ post'
        \<and> length (c # pre') \<le> length pre"
      using False pre2 by simp
    then show ?thesis by blast
  qed
qed

subsection \<open>The amount token and the result\<close>

lemma match_decimal_last_digit: "match_decimal c = Some (w, f) \<Longrightarrow> c \<noteq> [] \<and> is_digit (last c)"
proof -
  assume m: "match_decimal c = Some (w, f)"
  then obtain s where dw: "dropWhile is_digit c = s # f" and f: "f \<noteq> []" "list_all is_digit f"
    unfolding match_decimal_def Let_def by (auto split: list.splits if_splits)
  have "c = takeWhile is_digit c @ s # f"
    using takeWhile_dropWhile_id[of is_digit c] dw by simp
  then have "c \<noteq> []" "last c = last f"
    using f(1) by (metis Nil_is_append_conv list.distinct(1), metis last_ConsR last_appendR list.distinct(1))
  then show ?thesis
    using f by (auto simp: list_all_iff)
qed

lemma extract_suffixed_at_form:
  assumes "extract_suffixed_at sufs p = Some t"
  shows "\<exists>d1 mid suf. t = d1 @ mid @ suf \<and> d1 \<noteq> [] \<and> list_all is_digit d1
           \<and> toLowerCase suf \<in> set sufs"
proof -
  define d1 where "d1 = takeWhile is_digit p"
  define r1 where "r1 = dropWhile is_digit p"
  define sp where "sp = (case r1 of c # r' \<Rightarrow> if is_sep c then [c] else [] | [] \<Rightarrow> [])"
  define r2 where "r2 = drop (length sp) r1"
  define d2 where "d2 = takeWhile is_digit r2"
  define r3 where "r3 = dropWhile is_digit r2"
  define ws where "ws = takeWhile is_space r3"
  define r4 where "r4 = dropWhile is_space r3"
  from assms obtain suf where suf: "match_alt_ci sufs r4 = Some suf"
    and t: "t = d1 @ sp @ d2 @ ws @ suf" and d1: "d1 \<noteq> []"
    unfolding extract_suffixed_at_def Let_def d1_def r1_def sp_def r2_def d2_def r3_def ws_def r4_def
    by (auto split: if_splits option.splits)
  have "list_all is_digit d1"
    unfolding d1_def list_all_iff by (auto dest: set_takeWhileD)
  moreover have "t = d1 @ (sp @ d2 @ ws) @ suf"
    using t by simp
  ultimately show ?thesis
    using d1 match_alt_ci_prefix[OF suf] by blast
qed

lemma suffixed_token_not_decimal:
  assumes e: "extract_suffixed_at sufs p = Some t" and l: "letter_suffixes sufs"
  shows "match_decimal (toLowerCase (trim t)) = None"
proof -
  from extract_suffixed_at_form[OF e] obtain d1 mid suf where t: "t = d1 @ mid @ suf"
    and d1: "d1 \<noteq> []" "list_all is_digit d1" and suf: "toLowerCase suf \<in> set sufs"
    by blast
  have ls: "letter_suffix (toLowerCase suf)"
    using l suf by (simp add: letter_suffixes_def)
  then have ne: "toLowerCase suf \<noteq> []"
    by (simp add: letter_suffix_def)
  have s: "suf \<noteq> []" "\<not> is_space (last suf)" "\<not> is_digit (last suf)"
    using lowered_token[OF refl ne] ls by (simp_all add: letter_suffix_def)
  have hd: "\<not> is_space (hd t)"
    using d1 by (cases d1) (auto simp: t digit_not_space)
  have la: "last t = last suf"
    using s(1) by (simp add: t)
  have tr: "trim t = t"
    using hd la s by (intro trim_id) (auto simp: t)
  have "last (toLowerCase t) = lower_char (last suf)"
    using s(1) la by (simp add: toLowerCase_def last_map t)
  then have "\<not> is_digit (last (toLowerCase t))"
    using s(3) by (simp add: is_digit_lower_char)
  then show ?thesis
    unfolding tr using match_decimal_last_digit[of "toLowerCase t"]
    by (cases "match_decimal (toLowerCase t)") auto
qed

lemma take_groups_props:
  "only_groups (take_groups r)" "list_all (\<lambda>c. is_digit c \<or> is_sep c) (take_groups r)"
  "take_groups r \<noteq> [] \<Longrightarrow> is_sep (hd (take_groups r)) \<and> is_digit (last (take_groups r))"
  by (induction r rule: take_groups.induct) auto

lemma toLowerCase_digits_seps: "list_all (\<lambda>c. is_digit c \<or> is_sep c) s \<Longrightarrow> toLowerCase s = s"
  by (induction s) (auto simp: toLowerCase_def lower_char_digit lower_char_sep)

lemma thousandSep_token:
  assumes "extract_thousandSep_at p = Some t"
  shows "match_thousandSep (toLowerCase (trim t))"
proof -
  define d where "d = takeWhile is_digit p"
  define g where "g = take_groups (dropWhile is_digit p)"
  from assms have t: "t = d @ g" and d: "1 \<le> length d" "length d \<le> 3" and g: "g \<noteq> []"
    by (auto simp: extract_thousandSep_at_def Let_def d_def g_def split: if_splits)
  have dd: "list_all is_digit d"
    unfolding d_def list_all_iff by (auto dest: set_takeWhileD)
  have gp: "only_groups g" "list_all (\<lambda>c. is_digit c \<or> is_sep c) g" "is_sep (hd g)" "is_digit (last g)"
    using take_groups_props[of "dropWhile is_digit p"] g by (auto simp: g_def)
  have "\<not> is_space (hd t)" "\<not> is_space (last t)"
    using d dd g gp(4) by (cases d; auto simp: t digit_not_space)+
  then have tr: "trim t = t"
    using g by (intro trim_id) (auto simp: t)
  have lo: "toLowerCase t = t"
    using dd gp(2) by (intro toLowerCase_digits_seps) (auto simp: t list_all_iff)
  have tw: "takeWhile is_digit (d @ g) = d" "dropWhile is_digit (d @ g) = g"
    using dd g gp(3) sep_not_digit[of "hd g"]
    by (simp_all add: takeWhile_append2 dropWhile_append2 list_all_iff takeWhile_stop dropWhile_stop)
  show ?thesis
    unfolding tr lo using d g gp(1) by (simp add: match_thousandSep_def t tw)
qed

lemma plain_token:
  assumes "extract_plain_at prev p = Some t"
  shows "match_plain (toLowerCase (trim t))"
proof -
  from assms have t: "t = takeWhile is_digit p" and l: "2 \<le> length t"
    by (auto simp: extract_plain_at_def Let_def split: if_splits)
  have dd: "list_all is_digit t"
    unfolding t list_all_iff by (auto dest: set_takeWhileD)
  have ne: "t \<noteq> []"
    using l by auto
  have "\<not> is_space (hd t)" "\<not> is_space (last t)"
    using dd ne by (auto simp: list_all_iff digit_not_space)
  then have "trim t = t"
    using ne by (intro trim_id)
  then show ?thesis
    using dd ne by (simp add: toLowerCase_digits match_plain_def)
qed

lemma first_match_amountPatterns:
  assumes "first_match amountPatterns s = Some t"
  shows "(\<exists>i sufs. letter_suffixes sufs \<and> extract_suffixed_at sufs (drop i s) = Some t)
       \<or> (\<exists>i. extract_thousandSep_at (drop i s) = Some t)
       \<or> (\<exists>i prev. extract_plain_at prev (drop i s) = Some t)"
proof -
  from assms consider
      "search (extract_suffixed_at [''jt'', ''juta'']) s = Some t"
    | "search (extract_suffixed_at [''rb'', ''ribu'', ''k'']) s = Some t"
    | "search extract_thousandSep_at s = Some t"
    | "search_plain None s = Some t"
    by (auto simp: amountPatterns_def split: option.splits)
  then show ?thesis
  proof cases
    case 1
    then show ?thesis
      using letter_suffixes_literals(1) by (auto simp: search_iff)
  next
    case 2
    then show ?thesis
      using letter_suffixes_literals(2) by (auto simp: search_iff)
  next
    case 3
    then show ?thesis
      by (auto simp: search_iff)
  next
    case 4
    then show ?thesis
      by (auto simp: search_plain_iff)
  qed
qed

lemma token_occurs:
  assumes "first_match amountPatterns s = Some t"
  shows "\<exists>pre post. s = pre @ t @ post"
proof -
  from first_match_amountPatterns[OF assms] obtain i where "prefix t (drop i s)"
    using extract_suffixed_at_prefix extract_thousandSep_at_prefix extract_plain_at_prefix
    by blast
  then obtain z where "drop i s = t @ z"
    by (auto simp: prefix_def)
  then have "s = take i s @ t @ z"
    by (metis append_take_drop_id)
  then show ?thesis by blast
qed

lemma token_amount_integer:
  assumes "first_match amountPatterns s = Some t" "parseAmount t = Some v"
  shows "isInteger v"
  using first_match_amountPatterns[OF assms(1)]
proof (elim disjE exE conjE)
  fix i sufs assume "letter_suffixes sufs" "extract_suffixed_at sufs (drop i s) = Some t"
  then have "match_decimal (toLowerCase (trim t)) = None"
    by (intro suffixed_token_not_decimal)
  with assms(2) show ?thesis
    by (intro parseAmount_integer_otherwise) auto
next
  fix i assume "extract_thousandSep_at (drop i s) = Some t"
  then have "match_thousandSep (toLowerCase (trim t))"
    by (rule thousandSep_token)
  from parseAmount_thousandSep[OF this] assms(2) show ?thesis
    by (auto simp: isInteger_of_nat)
next
  fix i prev assume "extract_plain_at prev (drop i s) = Some t"
  then have "match_plain (toLowerCase (trim t))"
    by (rule plain_token)
  from parseAmount_plain[OF this] assms(2) show ?thesis
    by (auto simp: isInteger_of_nat)
qed

lemma trim_ends:
  assumes "trim x \<noteq> []"
  shows "\<not> is_space (hd (trim x))" "\<not> is_space (last (trim x))"
proof -
  define y where "y = dropWhile is_space x"
  define z where "z = dropWhile is_space (rev y)"
  have tz: "trim x = rev z"
    by (simp add: trim_def y_def z_def)
  with assms have z: "z \<noteq> []" by simp
  then have "\<not> is_space (hd z)"
    unfolding z_def by (rule hd_dropWhile)
  then show "\<not> is_space (last (trim x))"
    using z by (simp add: tz last_rev)
  have "z = drop (length (takeWhile is_space (rev y))) (rev y)"
    unfolding z_def by (rule dropWhile_eq_drop)
  then have "rev z = take (length y - length (takeWhile is_space (rev y))) y"
    by (simp add: rev_drop)
  then obtain n where n: "rev z = take n y" by blast
  have "rev z \<noteq> []" using z by simp
  then have "y \<noteq> []" "n \<noteq> 0" unfolding n by (auto intro: ccontr)
  then have "hd (rev z) = hd y"
    unfolding n by (cases y; cases n) auto
  moreover have "\<not> is_space (hd y)"
    using \<open>y \<noteq> []\<close> unfolding y_def by (rule hd_dropWhile)
  ultimately show "\<not> is_space (hd (trim x))"
    by (simp add: tz)
qed

lemma parseInput_Some:
  assumes "parseInput raw = Some r"
  shows "\<exists>tok. first_match amountPatterns (trim raw) = Some tok \<and> parseAmount tok = Some (amount r)
           \<and> 0 < amount r \<and> description r \<noteq> []
           \<and> description r
               = trim (strip_punct (collapse_spaces (trim (remove_first tok (trim raw)))))"
  using assms unfolding parseInput_def Let_def
  by (auto split: if_splits option.splits)

lemma parseInput_result_token:
  assumes "parseInput raw = Some r"
  shows "isInteger (amount r) \<and> 0 < amount r \<and> description r \<noteq> []
       \<and> \<not> is_space (hd (description r)) \<and> \<not> is_space (last (description r))
       \<and> (\<exists>tok pre post. first_match amountPatterns (trim raw) = Some tok
             \<and> parseAmount tok = Some (amount r) \<and> trim raw = pre @ tok @ post
             \<and> description r = trim (strip_punct (collapse_spaces (trim (pre @ post)))))"
proof -
  from parseInput_Some[OF assms] obtain tok where
    tok: "first_match amountPatterns (trim raw) = Some tok" and am: "parseAmount tok = Some (amount r)"
    and pos: "0 < amount r" and ne: "description r \<noteq> []"
    and d: "description r = trim (strip_punct (collapse_spaces (trim (remove_first tok (trim raw)))))"
    by blast
  from token_occurs[OF tok] obtain pre0 post0 where "trim raw = pre0 @ tok @ post0"
    by blast
  from remove_first_occurrence[OF this] obtain pre post where
    occ: "trim raw = pre @ tok @ post" "remove_first tok (trim raw) = pre @ post"
    by blast
  have "isInteger (amount r)"
    using tok am by (rule token_amount_integer)
  moreover have "\<not> is_space (hd (description r))" "\<not> is_space (last (description r))"
    using ne trim_ends unfolding d by blast+
  ultimately show ?thesis
    using pos ne tok am occ d by auto
qed

lemma parseInput_examples:
  "parseInput ''bakso 15rb'' = Some \<lparr>description = ''bakso'', amount = 15000\<rparr>"
  "parseInput ''15rb bakso'' = Some \<lparr>description = ''bakso'', amount = 15000\<rparr>"
  "parseInput ''bakso enak'' = None"
  "parseInput ''15rb'' = None"
  by code_simp+

text \<open>
  The amount token of \<^verbatim>\<open>parseInput\<close> is the result of the first pattern of the list
  (million suffix, thousand suffix, grouped separators, bare number of at least two digits
  between word boundaries) that matches anywhere in the trimmed input, and of that pattern
  the match at the leftmost position where it matches, wherever that is; the description
  is made of what is left of the input when an occurrence of the token's text is taken
  out.
\<close>

lemma first_extractor_leftmost_match:
  "(first_match amountPatterns s = Some t \<longleftrightarrow>
      (\<exists>i<length amountPatterns. (amountPatterns ! i) s = Some t
         \<and> (\<forall>j<i. (amountPatterns ! j) s = None)))
   \<and> amountPatterns =
       [search (extract_suffixed_at [''jt'', ''juta'']),
        search (extract_suffixed_at [''rb'', ''ribu'', ''k'']),
        search extract_thousandSep_at,
        search_plain None]
   \<and> (search m s = Some t \<longleftrightarrow>
        (\<exists>i\<le>length s. m (drop i s) = Some t \<and> (\<forall>j<i. m (drop j s) = None)))
   \<and> (search_plain None s = Some t \<longleftrightarrow>
        (\<exists>i<length s. extract_plain_at (char_before None s i) (drop i s) = Some t
           \<and> (\<forall>j<i. extract_plain_at (char_before None s j) (drop j s) = None)))
   \<and> (parseInput raw = Some r \<longrightarrow>
        (\<exists>tok pre post. first_match amountPatterns (trim raw) = Some tok
           \<and> parseAmount tok = Some (amount r) \<and> trim raw = pre @ tok @ post
           \<and> description r = trim (strip_punct (collapse_spaces (trim (pre @ post))))))"
  using first_match_iff[of amountPatterns s t] search_iff[of m s t] search_plain_iff[of None s t]
    parseInput_result_token[of raw r]
  by (simp only: amountPatterns_def simp_thms) blast

text \<open>
  C4 claims that the leftmost match of the first pattern with a match is the amount token
  and is removed from the description. The four examples of the claim evaluate as it says
  (\<open>parseInput_examples\<close>), and the token is chosen as it says
  (\<open>first_extractor_leftmost_match\<close>). But \<^verbatim>\<open>trimmed.replace(amountStr, '')\<close> removes
  the first occurrence of the token's text, which need not be the match. In
  \<^verbatim>\<open>a15 15\<close> only the bare-number pattern matches, and not at position 1, where no word
  boundary is in front, but at position 4. The input without that match is \<^verbatim>\<open>a15\<close>
  followed by a space, which would give the description \<^verbatim>\<open>a15\<close>; the code takes the
  text \<^verbatim>\<open>15\<close> out of \<^verbatim>\<open>a15\<close> and returns the description \<^verbatim>\<open>a 15\<close>, with the matched
  token still in it.
\<close>

theorem parseInput_removes_earlier_occurrence:
  "parseInput ''a15 15'' = Some \<lparr>description = ''a 15'', amount = 15\<rparr>
   \<and> first_match amountPatterns (trim ''a15 15'') = Some ''15''
   \<and> extract_plain_at (char_before None ''a15 15'' 1) (drop 1 ''a15 15'') = None
   \<and> extract_plain_at (char_before None ''a15 15'' 4) (drop 4 ''a15 15'') = Some ''15''
   \<and> take 4 ''a15 15'' @ drop (4 + length ''15'') ''a15 15'' = ''a15 ''
   \<and> trim (strip_punct (collapse_spaces (trim ''a15 ''))) = ''a15''"
  by code_simp




section \<open>Properties of the fuzzy matcher\<close>

subsection \<open>The table of distances\<close>












subsection \<open>The best match\<close>





subsection \<open>The distance is the edit distance\<close>






















section \<open>Properties of the remote classifier\<close>

subsection \<open>Parsing the reply\<close>

lemma str_includes_iff: "str_includes s t \<longleftrightarrow> (\<exists>p q. s = p @ t @ q)"
proof (induction s)
  case Nil
  then show ?case by auto
next
  case (Cons c s)
  show ?case
  proof
    assume "str_includes (c # s) t"
    then consider "prefix t (c # s)" | "str_includes s t" by auto
    then show "\<exists>p q. c # s = p @ t @ q"
    proof cases
      case 1
      then obtain q where "c # s = [] @ t @ q" by (auto simp: prefix_def)
      then show ?thesis by blast
    next
      case 2
      with Cons obtain p q where "s = p @ t @ q" by blast
      then have "c # s = (c # p) @ t @ q" by simp
      then show ?thesis by blast
    qed
  next
    assume "\<exists>p q. c # s = p @ t @ q"
    then obtain p q where pq: "c # s = p @ t @ q" by blast
    show "str_includes (c # s) t"
    proof (cases p)
      case Nil
      with pq have "prefix t (c # s)" by (simp add: prefix_def)
      then show ?thesis by simp
    next
      case (Cons a p')
      with pq have "s = p' @ t @ q" by simp
      with Cons.IH show ?thesis by auto
    qed
  qed
qed

lemma str_includes_refl: "str_includes s s"
  using str_includes_iff[of s s] by (metis append_Nil append_Nil2)

lemma parse_loop_Cons:
  "parse_loop n (c # cs) = (if str_includes n (category_name c) then c else parse_loop n cs)"
  using str_includes_refl[of n] by auto

lemma parse_loop_first:
  assumes "cs = pre @ c # post" "\<forall>c'\<in>set pre. \<not> str_includes n (category_name c')"
    "str_includes n (category_name c)"
  shows "parse_loop n cs = c"
  using assms
proof (induction pre arbitrary: cs)
  case Nil
  then show ?case by (simp only: append_Nil parse_loop_Cons if_True)
next
  case (Cons a pre)
  then have "parse_loop n (pre @ c # post) = c" by simp
  with Cons.prems show ?case by (simp add: parse_loop_Cons del: parse_loop.simps)
qed

lemma parse_loop_none:
  "\<forall>c\<in>set cs. \<not> str_includes n (category_name c) \<Longrightarrow> parse_loop n cs = other"
  by (induction cs) (simp_all add: parse_loop_Cons del: parse_loop.simps(2))

lemma parse_loop_result:
  "(\<exists>pre post. cs = pre @ parse_loop n cs # post \<and> str_includes n (category_name (parse_loop n cs))
      \<and> (\<forall>c'\<in>set pre. \<not> str_includes n (category_name c')))
   \<or> (parse_loop n cs = other \<and> (\<forall>c\<in>set cs. \<not> str_includes n (category_name c)))"
proof (induction cs)
  case Nil
  then show ?case by simp
next
  case (Cons a cs)
  show ?case
  proof (cases "str_includes n (category_name a)")
    case True
    then have "a # cs = [] @ parse_loop n (a # cs) # cs
        \<and> str_includes n (category_name (parse_loop n (a # cs)))
        \<and> (\<forall>c'\<in>set []. \<not> str_includes n (category_name c'))"
      by (simp add: parse_loop_Cons del: parse_loop.simps(2))
    then show ?thesis by blast
  next
    case False
    then have eq: "parse_loop n (a # cs) = parse_loop n cs"
      by (simp add: parse_loop_Cons del: parse_loop.simps(2))
    from Cons consider
        (hit) pre post where "cs = pre @ parse_loop n cs # post"
          "str_includes n (category_name (parse_loop n cs))"
          "\<forall>c'\<in>set pre. \<not> str_includes n (category_name c')"
      | (miss) "parse_loop n cs = other" "\<forall>c\<in>set cs. \<not> str_includes n (category_name c)"
      by blast
    then show ?thesis
    proof cases
      case hit
      then have "a # cs = (a # pre) @ parse_loop n (a # cs) # post
          \<and> str_includes n (category_name (parse_loop n (a # cs)))
          \<and> (\<forall>c'\<in>set (a # pre). \<not> str_includes n (category_name c'))"
        using False eq by simp
      then show ?thesis by blast
    next
      case miss
      then show ?thesis using False eq by simp
    qed
  qed
qed

lemma all_categories: "set VALID_CATEGORIES = UNIV"
proof -
  have "c \<in> set VALID_CATEGORIES" for c
    by (cases c) (simp_all add: VALID_CATEGORIES_def)
  then show ?thesis by blast
qed

lemma parseCategory_examples:
  "parseCategory ''Transport, not Food'' = food" "parseCategory ''  FOOD  '' = food"
  "parseCategory ''Income.'' = income" "parseCategory ''no idea'' = other"
  by code_simp+

text \<open>
  C8: \<^verbatim>\<open>parseCategory\<close> lowercases and trims the reply. The result is the first category
  of the enumeration food, transport, bills, shopping, entertainment, income, other whose
  name occurs in that text, as the whole of it or as a substring; a reply in which no name
  occurs resolves to \<open>other\<close>, and a category besides \<open>other\<close> is returned only if its
  name occurs.
\<close>

theorem parseCategory_first_category_in_reply:
  "(VALID_CATEGORIES = pre @ c # post
      \<and> str_includes (trim (toLowerCase response)) (category_name c)
      \<and> (\<forall>c'\<in>set pre. \<not> str_includes (trim (toLowerCase response)) (category_name c'))
      \<longrightarrow> parseCategory response = c)
   \<and> ((\<forall>c. \<not> str_includes (trim (toLowerCase response)) (category_name c))
      \<longrightarrow> parseCategory response = other)
   \<and> (parseCategory response \<noteq> other
      \<longrightarrow> str_includes (trim (toLowerCase response)) (category_name (parseCategory response)))
   \<and> (str_includes a b \<longleftrightarrow> (\<exists>p q. a = p @ b @ q))
   \<and> VALID_CATEGORIES = [food, transport, bills, shopping, entertainment, income, other]
   \<and> parseCategory ''Transport, not Food'' = food
   \<and> parseCategory ''  FOOD  '' = food
   \<and> parseCategory ''no idea'' = other"
proof -
  let ?n = "trim (toLowerCase response)"
  have 1: "parseCategory response = c"
    if "VALID_CATEGORIES = pre @ c # post" "str_includes ?n (category_name c)"
      "\<forall>c'\<in>set pre. \<not> str_includes ?n (category_name c')"
    using parse_loop_first[OF that(1,3,2)] by (simp add: parseCategory_def)
  have 2: "parseCategory response = other" if "\<forall>c. \<not> str_includes ?n (category_name c)"
    using parse_loop_none[of VALID_CATEGORIES ?n] that by (simp add: parseCategory_def)
  have 3: "str_includes ?n (category_name (parseCategory response))"
    if "parseCategory response \<noteq> other"
    using parse_loop_result[of VALID_CATEGORIES ?n] that by (auto simp: parseCategory_def)
  show ?thesis
    using 1 2 3 str_includes_iff[of a b] parseCategory_examples
    by (simp add: VALID_CATEGORIES_def)
qed

theorem parseCategory_first_category_in_reply_witness:
  "parseCategory ''shopping for transport'' = transport
   \<and> parseCategory ''dunno'' = other
   \<and> str_includes (trim (toLowerCase ''My guess: Bills'')) ''bills''
   \<and> (\<exists>p q. ''seafood'' = p @ ''food'' @ q)"
proof -
  have v: "VALID_CATEGORIES = [food] @ transport # [bills, shopping, entertainment, income, other]"
    by (simp add: VALID_CATEGORIES_def)
  have h: "str_includes (trim (toLowerCase ''shopping for transport'')) (category_name transport)"
    "\<forall>c'\<in>set [food]. \<not> str_includes (trim (toLowerCase ''shopping for transport'')) (category_name c')"
    by code_simp+
  from parseCategory_first_category_in_reply
    [of "[food]" transport "[bills, shopping, entertainment, income, other]"
        "''shopping for transport''" "[]" "[]"] v h
  have a: "parseCategory ''shopping for transport'' = transport"
    by blast
  have "\<forall>c\<in>set VALID_CATEGORIES. \<not> str_includes (trim (toLowerCase ''dunno'')) (category_name c)"
    by code_simp
  then have "\<forall>c. \<not> str_includes (trim (toLowerCase ''dunno'')) (category_name c)"
    by (simp add: all_categories)
  with parseCategory_first_category_in_reply[of "[]" food "[]" "''dunno''" "[]" "[]"]
  have b: "parseCategory ''dunno'' = other"
    by blast
  have "parseCategory ''My guess: Bills'' = bills"
    by code_simp
  with parseCategory_first_category_in_reply[of "[]" food "[]" "''My guess: Bills''" "[]" "[]"]
  have c: "str_includes (trim (toLowerCase ''My guess: Bills'')) ''bills''"
    by auto
  have "str_includes ''seafood'' ''food''"
    by code_simp
  with parseCategory_first_category_in_reply[of "[]" food "[]" "[]" "''seafood''" "''food''"]
  have d: "\<exists>p q. ''seafood'' = p @ ''food'' @ q"
    by blast
  show ?thesis
    using a b c d by blast
qed

section \<open>Properties of the categorizer\<close>

subsection \<open>Blank descriptions\<close>

lemma trim_blank: "list_all is_space s \<Longrightarrow> trim s = []"
proof -
  assume "list_all is_space s"
  then have dw: "dropWhile is_space s = []"
    by (simp add: list_all_iff)
  show ?thesis
    unfolding trim_def dw by simp
qed

lemma trim_empty_iff: "trim s = [] \<longleftrightarrow> list_all is_space s"
proof
  assume t: "trim s = []"
  then have "dropWhile is_space (rev (dropWhile is_space s)) = []"
    by (simp add: trim_def)
  then have "\<forall>c\<in>set (dropWhile is_space s). is_space c"
    by (simp add: dropWhile_eq_Nil_conv)
  then have "dropWhile is_space s = []"
    using hd_dropWhile[of is_space s] by (cases "dropWhile is_space s") auto
  then show "list_all is_space s"
    by (simp add: dropWhile_eq_Nil_conv list_all_iff)
qed (rule trim_blank)

lemma split_ws_not_Nil: "split_ws s \<noteq> []"
  by (subst split_ws.simps) (simp split: list.splits)

lemma learned_pass_reads_fail: "reads_fail d \<Longrightarrow> ws \<noteq> [] \<Longrightarrow> learned_pass d ws = Inl DbError"
  by (cases ws) (simp_all add: getCategoryMapping_def)

lemma categorize_blank:
  assumes "desc = [] \<or> list_all is_space desc"
  shows "categorize d desc = Inr None" "categorizeFromDefaults desc = None"
  using assms trim_blank[of desc] by (auto simp: categorize_def categorizeFromDefaults_def)

lemma categorize_consults_store:
  assumes "\<not> (desc = [] \<or> list_all is_space desc)" "reads_fail d"
  shows "categorize d desc = Inl DbError"
proof -
  have "trim desc \<noteq> []" "desc \<noteq> []"
    using assms(1) trim_empty_iff[of desc] by auto
  then show ?thesis
    using learned_pass_reads_fail[OF assms(2) split_ws_not_Nil]
    by (simp add: categorize_def Let_def)
qed

text \<open>
  C10: on an empty description and on one of white space only, \<^verbatim>\<open>categorize\<close> and
  \<^verbatim>\<open>categorizeFromDefaults\<close> return nothing. \<^verbatim>\<open>categorize\<close> does so in every state of
  the store, also one that rejects every read, so the store is not consulted: on any other
  description a store that rejects reads makes the call reject.
\<close>

theorem categorize_blank_description:
  "(desc = [] \<or> list_all is_space desc
      \<longrightarrow> categorize d desc = Inr None \<and> categorizeFromDefaults desc = None)
   \<and> (\<not> (desc = [] \<or> list_all is_space desc) \<and> reads_fail d
      \<longrightarrow> categorize d desc = Inl DbError)"
  using categorize_blank(1)[of desc d] categorize_blank(2)[of desc]
    categorize_consults_store[of desc d] by (intro conjI impI) auto

theorem categorize_blank_description_witness:
  "categorize \<lparr>categoryMappings = Map.empty, reads_fail = True, writes_fail = True\<rparr> ''   '' = Inr None
   \<and> categorizeFromDefaults ''   '' = None
   \<and> categorize \<lparr>categoryMappings = Map.empty, reads_fail = True, writes_fail = True\<rparr> '''' = Inr None
   \<and> categorizeFromDefaults '''' = None
   \<and> categorize \<lparr>categoryMappings = Map.empty, reads_fail = True, writes_fail = True\<rparr> ''bakso''
       = Inl DbError"
proof -
  let ?d = "\<lparr>categoryMappings = Map.empty, reads_fail = True, writes_fail = True\<rparr>"
  have 1: "''   '' = [] \<or> list_all is_space ''   ''"
    by (simp add: is_space_def code_def)
  have 2: "\<not> (''bakso'' = [] \<or> list_all is_space ''bakso'')" "reads_fail ?d"
    by (simp_all add: is_space_def code_def)
  show ?thesis
    using categorize_blank_description[of "''   ''" ?d] categorize_blank_description[of "[]" ?d]
      categorize_blank_description[of "''bakso''" ?d] 1 2
    by simp
qed

subsection \<open>The fallback and the failure modes of the remote call\<close>

lemma categorizeWithGemini_failures:
  "no_key e \<Longrightarrow> categorizeWithGemini e d desc s = (other, d, [KeyNotConfigured])"
  "\<not> no_key e \<Longrightarrow> fetch e desc = FetchThrows
     \<Longrightarrow> categorizeWithGemini e d desc s = (other, d, [CallFailed])"
  "\<not> no_key e \<Longrightarrow> fetch e desc = Response False b
     \<Longrightarrow> categorizeWithGemini e d desc s = (other, d, [ApiError])"
  "\<not> no_key e \<Longrightarrow> fetch e desc = Response True JsonThrows
     \<Longrightarrow> categorizeWithGemini e d desc s = (other, d, [CallFailed])"
  "\<not> no_key e \<Longrightarrow> fetch e desc = Response True (Json Missing)
     \<Longrightarrow> categorizeWithGemini e d desc s = (other, d, [EmptyResponse])"
  "\<not> no_key e \<Longrightarrow> fetch e desc = Response True (Json (Text []))
     \<Longrightarrow> categorizeWithGemini e d desc s = (other, d, [EmptyResponse])"
  "\<not> no_key e \<Longrightarrow> fetch e desc = Response True (Json NotAString)
     \<Longrightarrow> categorizeWithGemini e d desc s = (other, d, [CallFailed])"
  by (simp_all add: categorizeWithGemini_def)

lemma categorizeWithGemini_reply:
  assumes "\<not> no_key e" "fetch e desc = Response True (Json (Text t))" "t \<noteq> []"
  shows "fst (categorizeWithGemini e d desc s) = parseCategory t"
  using assms
  by (simp add: categorizeWithGemini_def Let_def split: option.splits sum.splits)

lemma categorizeWithGemini_unparseable:
  assumes "\<not> no_key e" "fetch e desc = Response True (Json (Text t))"
    "\<forall>c. \<not> str_includes (trim (toLowerCase t)) (category_name c)"
  shows "fst (categorizeWithGemini e d desc s) = other"
    "fst (snd (categorizeWithGemini e d desc s)) = d"
proof -
  have "parseCategory t = other"
    using parse_loop_none[of VALID_CATEGORIES "trim (toLowerCase t)"] assms(3)
    by (simp add: parseCategory_def)
  then show "fst (categorizeWithGemini e d desc s) = other"
    "fst (snd (categorizeWithGemini e d desc s)) = d"
    using assms(1,2) by (simp_all add: categorizeWithGemini_def Let_def)
qed

lemma isGeminiAvailable_iff: "isGeminiAvailable e \<longleftrightarrow> (\<exists>k. apiKey e = Some k \<and> k \<noteq> [])"
  by (auto simp: isGeminiAvailable_def no_key_def split: option.splits)

lemma categorizeWithFallback_cases:
  "categorize d desc = Inr (Some v) \<Longrightarrow> categorizeWithFallback e d desc u = Inr (v, d, [])"
  "categorize d desc = Inr None \<Longrightarrow> u \<and> isGeminiAvailable e \<Longrightarrow>
     \<exists>c d' w. categorizeWithGemini e d desc True = (c, d', w)
       \<and> categorizeWithFallback e d desc u = Inr (Cat c, d', w)"
  "categorize d desc = Inr None \<Longrightarrow> \<not> (u \<and> isGeminiAvailable e) \<Longrightarrow>
     categorizeWithFallback e d desc u = Inr (Cat other, d, [])"
  "categorize d desc = Inl err \<Longrightarrow> categorizeWithFallback e d desc u = Inl err"
  by (auto simp: categorizeWithFallback_def split: prod.splits)

text \<open>
  C3: when the local \<^verbatim>\<open>categorize\<close> returns, \<^verbatim>\<open>categorizeWithFallback\<close> returns a value
  and never nothing: the local result when there is one; otherwise the remote
  classification when \<^verbatim>\<open>useGemini\<close> is set and a key is configured; otherwise \<open>other\<close>.
  The remote call always yields a category. A missing key, a thrown \<^verbatim>\<open>fetch\<close>, a response
  that is not ok, a body that fails to parse, a missing, empty or non-string text and a
  reply that names no category all give \<open>other\<close> and leave the store as it was; any other
  reply gives the category parsed from it.
\<close>

theorem categorizeWithFallback_never_null:
  "(categorize d desc = Inr r \<longrightarrow> (\<exists>v d' w. categorizeWithFallback e d desc u = Inr (v, d', w)))
   \<and> (categorize d desc = Inr (Some v) \<longrightarrow> categorizeWithFallback e d desc u = Inr (v, d, []))
   \<and> (categorize d desc = Inr None \<and> u \<and> isGeminiAvailable e \<longrightarrow>
        (\<exists>c d' w. categorizeWithGemini e d desc True = (c, d', w)
           \<and> categorizeWithFallback e d desc u = Inr (Cat c, d', w)))
   \<and> (categorize d desc = Inr None \<and> \<not> (u \<and> isGeminiAvailable e) \<longrightarrow>
        categorizeWithFallback e d desc u = Inr (Cat other, d, []))
   \<and> (isGeminiAvailable e \<longleftrightarrow> (\<exists>k. apiKey e = Some k \<and> k \<noteq> []))
   \<and> (no_key e \<longrightarrow> categorizeWithGemini e d desc s = (other, d, [KeyNotConfigured]))
   \<and> (\<not> no_key e \<and> fetch e desc = FetchThrows \<longrightarrow>
        categorizeWithGemini e d desc s = (other, d, [CallFailed]))
   \<and> (\<not> no_key e \<and> fetch e desc = Response False b \<longrightarrow>
        categorizeWithGemini e d desc s = (other, d, [ApiError]))
   \<and> (\<not> no_key e \<and> fetch e desc = Response True JsonThrows \<longrightarrow>
        categorizeWithGemini e d desc s = (other, d, [CallFailed]))
   \<and> (\<not> no_key e \<and> fetch e desc = Response True (Json Missing) \<longrightarrow>
        categorizeWithGemini e d desc s = (other, d, [EmptyResponse]))
   \<and> (\<not> no_key e \<and> fetch e desc = Response True (Json (Text [])) \<longrightarrow>
        categorizeWithGemini e d desc s = (other, d, [EmptyResponse]))
   \<and> (\<not> no_key e \<and> fetch e desc = Response True (Json NotAString) \<longrightarrow>
        categorizeWithGemini e d desc s = (other, d, [CallFailed]))
   \<and> (\<not> no_key e \<and> fetch e desc = Response True (Json (Text t))
        \<and> (\<forall>c. \<not> str_includes (trim (toLowerCase t)) (category_name c)) \<longrightarrow>
        fst (categorizeWithGemini e d desc s) = other
        \<and> fst (snd (categorizeWithGemini e d desc s)) = d)
   \<and> (\<not> no_key e \<and> fetch e desc = Response True (Json (Text t)) \<and> t \<noteq> [] \<longrightarrow>
        fst (categorizeWithGemini e d desc s) = parseCategory t)"
proof -
  have a1: "categorize d desc = Inr r \<longrightarrow> (\<exists>v d' w. categorizeWithFallback e d desc u = Inr (v, d', w))"
    by (cases r) (auto simp: categorizeWithFallback_def split: prod.splits)
  have a2: "categorize d desc = Inr (Some v) \<longrightarrow> categorizeWithFallback e d desc u = Inr (v, d, [])"
    by (simp add: categorizeWithFallback_cases)
  have a3: "categorize d desc = Inr None \<and> u \<and> isGeminiAvailable e \<longrightarrow>
        (\<exists>c d' w. categorizeWithGemini e d desc True = (c, d', w)
           \<and> categorizeWithFallback e d desc u = Inr (Cat c, d', w))"
    using categorizeWithFallback_cases(2) by blast
  have a4: "categorize d desc = Inr None \<and> \<not> (u \<and> isGeminiAvailable e) \<longrightarrow>
        categorizeWithFallback e d desc u = Inr (Cat other, d, [])"
    using categorizeWithFallback_cases(3) by blast
  have a5: "isGeminiAvailable e \<longleftrightarrow> (\<exists>k. apiKey e = Some k \<and> k \<noteq> [])"
    by (rule isGeminiAvailable_iff)
  have b1: "no_key e \<longrightarrow> categorizeWithGemini e d desc s = (other, d, [KeyNotConfigured])"
    and b2: "\<not> no_key e \<and> fetch e desc = FetchThrows \<longrightarrow>
        categorizeWithGemini e d desc s = (other, d, [CallFailed])"
    and b3: "\<not> no_key e \<and> fetch e desc = Response False b \<longrightarrow>
        categorizeWithGemini e d desc s = (other, d, [ApiError])"
    and b4: "\<not> no_key e \<and> fetch e desc = Response True JsonThrows \<longrightarrow>
        categorizeWithGemini e d desc s = (other, d, [CallFailed])"
    and b5: "\<not> no_key e \<and> fetch e desc = Response True (Json Missing) \<longrightarrow>
        categorizeWithGemini e d desc s = (other, d, [EmptyResponse])"
    and b6: "\<not> no_key e \<and> fetch e desc = Response True (Json (Text [])) \<longrightarrow>
        categorizeWithGemini e d desc s = (other, d, [EmptyResponse])"
    and b7: "\<not> no_key e \<and> fetch e desc = Response True (Json NotAString) \<longrightarrow>
        categorizeWithGemini e d desc s = (other, d, [CallFailed])"
    by (simp_all add: categorizeWithGemini_failures)
  have c1: "\<not> no_key e \<and> fetch e desc = Response True (Json (Text t))
        \<and> (\<forall>c. \<not> str_includes (trim (toLowerCase t)) (category_name c)) \<longrightarrow>
        fst (categorizeWithGemini e d desc s) = other
        \<and> fst (snd (categorizeWithGemini e d desc s)) = d"
    using categorizeWithGemini_unparseable by blast
  have c2: "\<not> no_key e \<and> fetch e desc = Response True (Json (Text t)) \<and> t \<noteq> [] \<longrightarrow>
        fst (categorizeWithGemini e d desc s) = parseCategory t"
    using categorizeWithGemini_reply by blast
  show ?thesis
    by (intro conjI a1 a2 a3 a4 a5 b1 b2 b3 b4 b5 b6 b7 c1 c2)
qed

theorem categorizeWithFallback_never_null_witness:
  "categorizeWithFallback \<lparr>apiKey = None, fetch = \<lambda>_. FetchThrows\<rparr>
      \<lparr>categoryMappings = Map.empty, reads_fail = False, writes_fail = False\<rparr> ''bakso'' True
     = Inr (Cat food, \<lparr>categoryMappings = Map.empty, reads_fail = False, writes_fail = False\<rparr>, [])
   \<and> categorizeWithFallback \<lparr>apiKey = None, fetch = \<lambda>_. FetchThrows\<rparr>
      \<lparr>categoryMappings = Map.empty, reads_fail = False, writes_fail = False\<rparr> ''zz'' True
     = Inr (Cat other, \<lparr>categoryMappings = Map.empty, reads_fail = False, writes_fail = False\<rparr>, [])
   \<and> categorizeWithFallback \<lparr>apiKey = Some ''key'', fetch = \<lambda>_. Response False JsonThrows\<rparr>
      \<lparr>categoryMappings = Map.empty, reads_fail = False, writes_fail = False\<rparr> ''zz'' True
     = Inr (Cat other, \<lparr>categoryMappings = Map.empty, reads_fail = False, writes_fail = False\<rparr>,
            [ApiError])
   \<and> categorizeWithGemini \<lparr>apiKey = Some ''key'', fetch = \<lambda>_. FetchThrows\<rparr>
      \<lparr>categoryMappings = Map.empty, reads_fail = False, writes_fail = False\<rparr> ''zz'' True
     = (other, \<lparr>categoryMappings = Map.empty, reads_fail = False, writes_fail = False\<rparr>,
        [CallFailed])
   \<and> fst (categorizeWithGemini
        \<lparr>apiKey = Some ''key'', fetch = \<lambda>_. Response True (Json (Text ''dunno''))\<rparr>
        \<lparr>categoryMappings = Map.empty, reads_fail = False, writes_fail = False\<rparr> ''zz'' True)
     = other"
proof -
  let ?d = "\<lparr>categoryMappings = Map.empty, reads_fail = False, writes_fail = False\<rparr>"
  let ?e0 = "\<lparr>apiKey = None, fetch = \<lambda>_. FetchThrows\<rparr>"
  let ?e1 = "\<lparr>apiKey = Some ''key'', fetch = \<lambda>_. Response False JsonThrows\<rparr>"
  let ?e2 = "\<lparr>apiKey = Some ''key'', fetch = \<lambda>_. FetchThrows\<rparr>"
  let ?e3 = "\<lparr>apiKey = Some ''key'', fetch = \<lambda>_. Response True (Json (Text ''dunno''))\<rparr>"
  have loc: "categorize ?d ''bakso'' = Inr (Some (Cat food))" "categorize ?d ''zz'' = Inr None"
    by code_simp+
  have key: "\<not> isGeminiAvailable ?e0" "isGeminiAvailable ?e1" "\<not> no_key ?e1" "\<not> no_key ?e2"
    "\<not> no_key ?e3"
    by (simp_all add: isGeminiAvailable_def no_key_def)
  have a: "categorizeWithFallback ?e0 ?d ''bakso'' True = Inr (Cat food, ?d, [])"
    using categorizeWithFallback_never_null
      [where d = "?d" and desc = "''bakso''"
         and r = "Some (Cat food)" and e = "?e0" and u = "True" and v = "Cat food"
         and s = "True" and b = "JsonThrows" and t = "[]"] loc(1)
    by blast
  have b: "categorizeWithFallback ?e0 ?d ''zz'' True = Inr (Cat other, ?d, [])"
    using categorizeWithFallback_never_null
      [where d = "?d" and desc = "''zz''"
         and r = "None" and e = "?e0" and u = "True" and v = "Cat food"
         and s = "True" and b = "JsonThrows" and t = "[]"] loc(2) key(1)
    by blast
  have "categorizeWithGemini ?e1 ?d ''zz'' True = (other, ?d, [ApiError])"
    using categorizeWithFallback_never_null
      [where d = "?d" and desc = "''zz''"
         and r = "None" and e = "?e1" and u = "True" and v = "Cat food"
         and s = "True" and b = "JsonThrows" and t = "[]"] key(3)
    by simp
  moreover have "\<exists>c d' w. categorizeWithGemini ?e1 ?d ''zz'' True = (c, d', w)
           \<and> categorizeWithFallback ?e1 ?d ''zz'' True = Inr (Cat c, d', w)"
    using categorizeWithFallback_never_null
      [where d = "?d" and desc = "''zz''"
         and r = "None" and e = "?e1" and u = "True" and v = "Cat food"
         and s = "True" and b = "JsonThrows" and t = "[]"] loc(2) key(2)
    by blast
  ultimately have c: "categorizeWithFallback ?e1 ?d ''zz'' True = Inr (Cat other, ?d, [ApiError])"
    by auto
  have d: "categorizeWithGemini ?e2 ?d ''zz'' True = (other, ?d, [CallFailed])"
    using categorizeWithFallback_never_null
      [where d = "?d" and desc = "''zz''"
         and r = "None" and e = "?e2" and u = "True" and v = "Cat food"
         and s = "True" and b = "JsonThrows" and t = "[]"] key(4)
    by simp
  have "\<forall>c\<in>set VALID_CATEGORIES. \<not> str_includes (trim (toLowerCase ''dunno'')) (category_name c)"
    by code_simp
  then have "\<forall>c. \<not> str_includes (trim (toLowerCase ''dunno'')) (category_name c)"
    by (simp add: all_categories)
  then have e: "fst (categorizeWithGemini ?e3 ?d ''zz'' True) = other"
    using categorizeWithFallback_never_null
      [where d = "?d" and desc = "''zz''"
         and r = "None" and e = "?e3" and u = "True" and v = "Cat food"
         and s = "True" and b = "JsonThrows" and t = "''dunno''"] key(5)
    by simp
  show ?thesis
    using a b c d e by simp
qed

subsection \<open>Learning from a remote classification\<close>



lemma main_keyword_None:
  "main_keyword desc = None \<longleftrightarrow>
     (\<forall>w\<in>set (split_ws (trim (toLowerCase desc))). starts_with_digit w \<or> length w < 2)"
  unfolding main_keyword_def find_None_iff by (auto simp: not_le)




subsection \<open>The passes of the categorizer\<close>

lemma learned_pass_ok:
  assumes "\<not> reads_fail d"
  shows "learned_pass d ws
           = Inr (case find (\<lambda>w. categoryMappings d (toLowerCase w) \<noteq> None) ws of
                    None \<Rightarrow> None
                  | Some w \<Rightarrow> map_option category (categoryMappings d (toLowerCase w)))"
  using assms by (induction ws) (auto simp: getCategoryMapping_def split: option.splits)

lemma exact_pass_own_keys:
  assumes "\<forall>w\<in>set ws. w \<notin> set Object_prototype_keys"
  shows "exact_pass ws
           = (case find (\<lambda>w. map_of DEFAULT_KEYWORDS w \<noteq> None) ws of
                None \<Rightarrow> None
              | Some w \<Rightarrow> map_option Cat (map_of DEFAULT_KEYWORDS w))"
  using assms by (induction ws) (auto simp: key_in_def table_get_def split: option.splits)

lemma categorize_learned_first:
  assumes "\<not> reads_fail d" "trim desc \<noteq> []"
    "find (\<lambda>w. categoryMappings d (toLowerCase w) \<noteq> None) (split_ws (trim (toLowerCase desc))) = Some w"
    "categoryMappings d (toLowerCase w) = Some m"
  shows "categorize d desc = Inr (Some (Cat (category m)))"
proof -
  have "desc \<noteq> []" using assms(2) by (auto simp: trim_def)
  then show ?thesis
    using assms by (simp add: categorize_def Let_def learned_pass_ok)
qed

lemma categorize_static:
  assumes "\<not> reads_fail d" "trim desc \<noteq> []"
    "find (\<lambda>w. categoryMappings d (toLowerCase w) \<noteq> None) (split_ws (trim (toLowerCase desc))) = None"
  shows "categorize d desc = Inr (static_passes (split_ws (trim (toLowerCase desc))))"
    "categorizeFromDefaults desc = static_passes (split_ws (trim (toLowerCase desc)))"
proof -
  have "desc \<noteq> []" using assms(2) by (auto simp: trim_def)
  then show "categorize d desc = Inr (static_passes (split_ws (trim (toLowerCase desc))))"
    "categorizeFromDefaults desc = static_passes (split_ws (trim (toLowerCase desc)))"
    using assms by (simp_all add: categorize_def categorizeFromDefaults_def Let_def learned_pass_ok)
qed

lemma categorize_learned_bakso:
  "categorize \<lparr>categoryMappings =
        [''bakso'' \<mapsto> \<lparr>keyword = ''bakso'', category = entertainment, count = 1\<rparr>],
      reads_fail = False, writes_fail = False\<rparr> ''bakso'' = Inr (Some (Cat entertainment))"
  "categorizeFromDefaults ''bakso'' = Some (Cat food)"
  by code_simp+

text \<open>
  C2 claims that pass 2 of \<^verbatim>\<open>categorize\<close> is an exact lookup among the static keywords and
  that the result is nothing when all four passes fail. The test of pass 2 is
  \<^verbatim>\<open>word in DEFAULT_KEYWORDS\<close>, which also holds of the names that the table inherits from
  \<^verbatim>\<open>Object.prototype\<close>. For the description \<^verbatim>\<open>constructor\<close> and a store without
  mappings, no word is learned, \<^verbatim>\<open>constructor\<close> is not a static keyword, and neither the
  substring pass nor the fuzzy pass finds a keyword for it; yet the call returns the
  inherited value, which is not a category.
\<close>

theorem categorize_inherited_property:
  "categorize \<lparr>categoryMappings = Map.empty, reads_fail = False, writes_fail = False\<rparr>
      ''constructor'' = Inr (Some (Inherited ''constructor''))
   \<and> categorizeFromDefaults ''constructor'' = Some (Inherited ''constructor'')
   \<and> split_ws (trim (toLowerCase ''constructor'')) = [''constructor'']
   \<and> map_of DEFAULT_KEYWORDS ''constructor'' = None
   \<and> partial_pass [''constructor''] = None
   \<and> fuzzy_pass [''constructor''] = None"
  by code_simp

end
